theory Spec2Isabelle
  imports Complex_Main "HOL-Library.Multiset" "HOL-Library.AList"
begin

section \<open>Engine objects\<close>

text \<open>
  Every engine-owned object (audio component, sound asset, widget, level sequence,
  streaming level) is reached through a pointer. A pointer is modelled as a handle of type
  \<open>object\<close>; a nullable pointer is an \<open>object option\<close> with \<open>None\<close> for \<open>nullptr\<close>.
  C++ \<open>float\<close> values are idealised as \<open>real\<close>: no rounding and no NaN.
\<close>

type_synonym object = nat

section \<open>TLDAudioManager.cpp\<close>

text \<open>Calls made on engine audio objects, recorded in the order the code makes them.\<close>

datatype audio_call =
    RegisterComponentWithWorld object
  | SetSoundClassOverride object object
  | SetSound object "object option"
  | FadeIn object real real
  | FadeOut object real real
  | Stop object
  | PushSoundMixModifier object

text \<open>\<open>UTLDAudioCatalog\<close>: the two tag-to-sound tables the manager reads.\<close>

record 'tag UTLDAudioCatalog =
  MusicByTag :: "'tag \<rightharpoonup> object option"
  SFXByTag :: "'tag \<rightharpoonup> object option"

text \<open>
  The fields of \<open>UTLDAudioManager\<close>. The gameplay-tag type and the \<open>EAudioState\<close> enum are
  declared outside the sources at hand and are type parameters. \<open>NextObject\<close> is the supply
  of fresh handles for \<open>NewObject\<close>; \<open>AudioCalls\<close> is the trace of engine calls.
\<close>

record ('tag, 'st) UTLDAudioManager =
  Catalog :: "'tag UTLDAudioCatalog option"
  CurrentMusicTag :: 'tag
  CurrentState :: 'st
  MusicByState :: "'st \<rightharpoonup> object option"
  MusicClass :: "object option"
  DefaultMix :: "object option"
  MusicAC :: "object option"
  ActiveMusic :: "object option"
  InactiveMusic :: "object option"
  SFXPool :: "object list"
  PoolIndex :: int
  NextObject :: object
  AudioCalls :: "audio_call list"

definition audio_call ::
  "audio_call \<Rightarrow> ('tag, 'st) UTLDAudioManager \<Rightarrow> ('tag, 'st) UTLDAudioManager" where
  "audio_call c s = s\<lparr>AudioCalls := AudioCalls s @ [c]\<rparr>"

text \<open>
  \<open>NewObject<UAudioComponent>\<close> followed by \<open>RegisterComponentWithWorld\<close>, as every creation
  site in the file does it.
\<close>

definition NewAudioComponent ::
  "('tag, 'st) UTLDAudioManager \<Rightarrow> object \<times> ('tag, 'st) UTLDAudioManager" where
  "NewAudioComponent s =
     (NextObject s,
      audio_call (RegisterComponentWithWorld (NextObject s)) (s\<lparr>NextObject := Suc (NextObject s)\<rparr>))"

definition ResolveMusicByTag :: "('tag, 'st) UTLDAudioManager \<Rightarrow> 'tag \<Rightarrow> object option" where
  "ResolveMusicByTag s Tag =
     (case Catalog s of
        None \<Rightarrow> None
      | Some cat \<Rightarrow> (case MusicByTag cat Tag of Some Found \<Rightarrow> Found | None \<Rightarrow> None))"

definition EnsureMusicComponent ::
  "('tag, 'st) UTLDAudioManager \<Rightarrow> ('tag, 'st) UTLDAudioManager" where
  "EnsureMusicComponent s =
     (case MusicAC s of
        Some _ \<Rightarrow> s
      | None \<Rightarrow>
          (let (c, s1) = NewAudioComponent s;
               s2 = s1\<lparr>MusicAC := Some c\<rparr>
           in case MusicClass s2 of
                Some cls \<Rightarrow> audio_call (SetSoundClassOverride c cls) s2
              | None \<Rightarrow> s2))"

definition EnsureMusicComponents ::
  "('tag, 'st) UTLDAudioManager \<Rightarrow> ('tag, 'st) UTLDAudioManager" where
  "EnsureMusicComponents s =
     (let sa = (case ActiveMusic s of
                  Some _ \<Rightarrow> s
                | None \<Rightarrow>
                    (let (c, s1) = NewAudioComponent s;
                         s2 = s1\<lparr>ActiveMusic := Some c\<rparr>
                     in case MusicClass s2 of
                          Some cls \<Rightarrow> audio_call (SetSoundClassOverride c cls) s2
                        | None \<Rightarrow> s2))
      in case InactiveMusic sa of
           Some _ \<Rightarrow> sa
         | None \<Rightarrow>
             (let (c, s1) = NewAudioComponent sa;
                  s2 = s1\<lparr>InactiveMusic := Some c\<rparr>
              in case MusicClass s2 of
                   Some cls \<Rightarrow> audio_call (SetSoundClassOverride c cls) s2
                 | None \<Rightarrow> s2))"

text \<open>
  \<open>CrossfadeTo\<close>. The first argument of the model is the engine's answer to
  \<open>IsPlaying()\<close> for each component at the time of the call.
\<close>

definition CrossfadeTo ::
  "(object \<Rightarrow> bool) \<Rightarrow> object option \<Rightarrow> real \<Rightarrow> real \<Rightarrow> real \<Rightarrow>
   ('tag, 'st) UTLDAudioManager \<Rightarrow> ('tag, 'st) UTLDAudioManager" where
  "CrossfadeTo IsPlaying NewTrack FadeOutTime FadeInTime TargetVolume s =
     (case NewTrack of
        None \<Rightarrow> s
      | Some t \<Rightarrow>
          (let s1 = EnsureMusicComponents s;
               Old = ActiveMusic s1;
               New = InactiveMusic s1;
               s2 = (case Old of
                       Some oc \<Rightarrow> if IsPlaying oc then audio_call (FadeOut oc FadeOutTime 0) s1 else s1
                     | None \<Rightarrow> s1);
               s3 = (case New of
                       Some nc \<Rightarrow>
                         audio_call (FadeIn nc FadeInTime TargetVolume)
                           (audio_call (SetSound nc (Some t)) s2)
                     | None \<Rightarrow> s2)
           in s3\<lparr>ActiveMusic := New, InactiveMusic := Old\<rparr>))"

text \<open>
  \<open>PlayMusicByTag\<close>. After \<open>EnsureMusicComponents\<close> both music components are set; the last
  case of the match stands for the null dereference that cannot happen then.
\<close>

definition PlayMusicByTag ::
  "(object \<Rightarrow> bool) \<Rightarrow> 'tag \<Rightarrow> real \<Rightarrow>
   ('tag, 'st) UTLDAudioManager \<Rightarrow> ('tag, 'st) UTLDAudioManager" where
  "PlayMusicByTag IsPlaying MusicTag FadeTime s =
     (if MusicTag = CurrentMusicTag s then s
      else case ResolveMusicByTag s MusicTag of
        None \<Rightarrow> s
      | Some Track \<Rightarrow>
          (let s1 = EnsureMusicComponents s
           in case (ActiveMusic s1, InactiveMusic s1) of
                (Some a, Some i) \<Rightarrow>
                  (let s2 = (if \<not> IsPlaying a \<and> \<not> IsPlaying i
                             then audio_call (FadeIn a FadeTime 1)
                                    (audio_call (SetSound a (Some Track)) s1)
                             else CrossfadeTo IsPlaying (Some Track) FadeTime FadeTime 1 s1)
                   in s2\<lparr>CurrentMusicTag := MusicTag\<rparr>)
              | _ \<Rightarrow> s1))"

definition PlayMusicState ::
  "(object \<Rightarrow> bool) \<Rightarrow> 'st \<Rightarrow> real \<Rightarrow>
   ('tag, 'st) UTLDAudioManager \<Rightarrow> ('tag, 'st) UTLDAudioManager" where
  "PlayMusicState IsPlaying NewState FadeTime s =
     (if CurrentState s = NewState then s
      else
        (let s1 = EnsureMusicComponent (s\<lparr>CurrentState := NewState\<rparr>)
         in case MusicByState s1 NewState of
              None \<Rightarrow> s1
            | Some NewTrack \<Rightarrow>
                (case MusicAC s1 of
                   None \<Rightarrow> s1
                 | Some m \<Rightarrow>
                     (let s2 = (if IsPlaying m then audio_call (FadeOut m FadeTime 0) s1 else s1)
                      in audio_call (FadeIn m FadeTime 1) (audio_call (SetSound m NewTrack) s2)))))"

text \<open>
  \<open>GetPooledSFX\<close>. \<open>SFXPool[PoolIndex]\<close> is a checked array access: an index outside the
  pool stops the program, which is the result \<open>None\<close>. Otherwise the result is the returned
  pointer and the manager afterwards. \<open>PoolIndex\<close> is an \<open>int32\<close>; where the access is in
  range \<open>PoolIndex + 1\<close> is at most the pool size, so the addition does not overflow and
  \<open>%\<close> on non-negative operands is \<open>mod\<close>.
\<close>

definition GetPooledSFX ::
  "('tag, 'st) UTLDAudioManager \<Rightarrow> (object option \<times> ('tag, 'st) UTLDAudioManager) option" where
  "GetPooledSFX s =
     (if length (SFXPool s) = 0 then Some (None, s)
      else if 0 \<le> PoolIndex s \<and> PoolIndex s < int (length (SFXPool s))
      then Some (Some (SFXPool s ! nat (PoolIndex s)),
                 s\<lparr>PoolIndex := (PoolIndex s + 1) mod int (length (SFXPool s))\<rparr>)
      else None)"

text \<open>\<open>n\<close> consecutive calls of \<open>GetPooledSFX\<close>, collecting the returned pointers in order.\<close>

fun GetPooledSFX_times ::
  "nat \<Rightarrow> ('tag, 'st) UTLDAudioManager \<Rightarrow>
   (object option list \<times> ('tag, 'st) UTLDAudioManager) option" where
  "GetPooledSFX_times 0 s = Some ([], s)"
| "GetPooledSFX_times (Suc n) s =
     (case GetPooledSFX s of
        None \<Rightarrow> None
      | Some (r, s1) \<Rightarrow>
          (case GetPooledSFX_times n s1 of
             None \<Rightarrow> None
           | Some (rs, s2) \<Rightarrow> Some (r # rs, s2)))"

text \<open>The pool-filling loop of \<open>Initialize\<close>: \<open>n\<close> fresh components appended in turn.\<close>

fun add_pool_components ::
  "nat \<Rightarrow> ('tag, 'st) UTLDAudioManager \<Rightarrow> ('tag, 'st) UTLDAudioManager" where
  "add_pool_components 0 s = s"
| "add_pool_components (Suc n) s =
     (let (c, s1) = NewAudioComponent s
      in add_pool_components n (s1\<lparr>SFXPool := SFXPool s1 @ [c]\<rparr>))"

text \<open>
  \<open>Initialize\<close>. The argument is what the project settings give: \<open>None\<close> when there are no
  settings, otherwise the result of loading the catalog asset.
\<close>

definition Initialize ::
  "'tag UTLDAudioCatalog option option \<Rightarrow>
   ('tag, 'st) UTLDAudioManager \<Rightarrow> ('tag, 'st) UTLDAudioManager" where
  "Initialize settings s =
     (let s1 = (case settings of Some loaded \<Rightarrow> s\<lparr>Catalog := loaded\<rparr> | None \<Rightarrow> s)
      in case Catalog s1 of
           None \<Rightarrow> s1
         | Some _ \<Rightarrow>
             (let s2 = EnsureMusicComponent (add_pool_components 16 s1)
              in case DefaultMix s2 of
                   Some m \<Rightarrow> audio_call (PushSoundMixModifier m) s2
                 | None \<Rightarrow> s2))"

section \<open>Engine strings\<close>

text \<open>
  \<open>FString\<close> is a \<open>string\<close>. The engine compares two \<open>FString\<close>s without regard to case, both
  in \<open>operator==\<close> and in \<open>Equals(..., ESearchCase::IgnoreCase)\<close>; the model folds the ASCII
  capitals before comparing.
\<close>

definition to_lower :: "char \<Rightarrow> char" where
  "to_lower c =
     (let n = (of_char c :: nat) in if 65 \<le> n \<and> n \<le> 90 then char_of (n + 32) else c)"

definition equals_ignore_case :: "string \<Rightarrow> string \<Rightarrow> bool" where
  "equals_ignore_case a b = (map to_lower a = map to_lower b)"

section \<open>TLDLevelStreamingManager.cpp\<close>

datatype ETLDChunkState = Unloaded | Loading | LoadedHidden | Visible

text \<open>
  \<open>FTLDChunkRecord\<close>, with the four fields the manager reads and writes. The type of level
  names (\<open>FName\<close>) is a type parameter.
\<close>

record 'n FTLDChunkRecord =
  LevelName :: 'n
  State :: ETLDChunkState
  Streaming :: "object option"
  WarmUpSeconds :: real

text \<open>
  What the manager can ask of the engine during one call: whether there is a world, the
  engine's own lookup of a streaming level by name, the world's list of streaming levels
  (entries may be null), the short package name of a streaming level, and whether a streaming
  level reports loaded or visible. \<open>IsNone\<close> and \<open>ToString\<close> are the operations of \<open>FName\<close>;
  \<open>DefaultWarmUpSeconds\<close> is the value of \<open>WarmUpSeconds\<close> in a default-constructed record,
  which the header declares.
\<close>

record 'n streaming_world =
  HasWorld :: bool
  GetStreamingLevel :: "'n \<Rightarrow> object option"
  StreamingLevels :: "object option list"
  ShortName :: "object \<Rightarrow> string"
  IsLevelLoaded :: "object \<Rightarrow> bool"
  IsLevelVisible :: "object \<Rightarrow> bool"
  IsNone :: "'n \<Rightarrow> bool"
  ToString :: "'n \<Rightarrow> string"
  DefaultWarmUpSeconds :: real

text \<open>Requests made to a streaming level, in the order the code makes them.\<close>

datatype streaming_call =
    SetShouldBeLoaded object bool
  | SetShouldBeVisible object bool

text \<open>
  The manager: \<open>ChunkRecords\<close> is a \<open>TMap\<close> from level name to record, kept as an association
  list in insertion order because \<open>Tick\<close> iterates over it; \<open>StreamingCalls\<close> is the trace of
  requests made so far.
\<close>

record 'n ATLDLevelStreamingManager =
  ChunkRecords :: "('n \<times> 'n FTLDChunkRecord) list"
  StreamingCalls :: "streaming_call list"

text \<open>The manual search of \<open>FindStreamingLevelByName\<close> (its second method).\<close>

fun search_streaming_levels ::
  "'n streaming_world \<Rightarrow> 'n \<Rightarrow> object option list \<Rightarrow> object option" where
  "search_streaming_levels w n [] = None"
| "search_streaming_levels w n (None # rest) = search_streaming_levels w n rest"
| "search_streaming_levels w n (Some SL # rest) =
     (if equals_ignore_case (ShortName w SL) (ToString w n) then Some SL
      else search_streaming_levels w n rest)"

definition FindStreamingLevelByName :: "'n streaming_world \<Rightarrow> 'n \<Rightarrow> object option" where
  "FindStreamingLevelByName w n =
     (if \<not> HasWorld w then None
      else case GetStreamingLevel w n of
             Some Found \<Rightarrow> Some Found
           | None \<Rightarrow> search_streaming_levels w n (StreamingLevels w))"

text \<open>
  \<open>GetOrAddRecord\<close> returns a reference into the map. The model returns the record and the
  manager that holds it; callers write the record back with \<open>put_record\<close> after changing it.
\<close>

definition GetOrAddRecord ::
  "'n streaming_world \<Rightarrow> 'n \<Rightarrow> 'n ATLDLevelStreamingManager \<Rightarrow>
   'n FTLDChunkRecord \<times> 'n ATLDLevelStreamingManager" where
  "GetOrAddRecord w n s =
     (case map_of (ChunkRecords s) n of
        Some Existing \<Rightarrow> (Existing, s)
      | None \<Rightarrow>
          (let NewRec = \<lparr>LevelName = n, State = Unloaded,
                         Streaming = FindStreamingLevelByName w n,
                         WarmUpSeconds = DefaultWarmUpSeconds w\<rparr>
           in (NewRec, s\<lparr>ChunkRecords := ChunkRecords s @ [(n, NewRec)]\<rparr>)))"

definition put_record ::
  "'n \<Rightarrow> 'n FTLDChunkRecord \<times> streaming_call list \<Rightarrow> 'n ATLDLevelStreamingManager \<Rightarrow>
   'n ATLDLevelStreamingManager" where
  "put_record n rc s =
     s\<lparr>ChunkRecords := AList.update n (fst rc) (ChunkRecords s),
       StreamingCalls := StreamingCalls s @ snd rc\<rparr>"

text \<open>
  \<open>ApplyLoad\<close>, \<open>ApplyUnload\<close> and \<open>ApplyVisibility\<close> change the record they are given and
  make requests to its streaming level: the model returns the changed record and the requests.
\<close>

definition ApplyLoad ::
  "'n streaming_world \<Rightarrow> 'n FTLDChunkRecord \<Rightarrow> bool \<Rightarrow> real \<Rightarrow>
   'n FTLDChunkRecord \<times> streaming_call list" where
  "ApplyLoad w Rec bMakeVisibleAfterLoad WarmUp =
     (let Rec1 = (if Streaming Rec = None
                  then Rec\<lparr>Streaming := FindStreamingLevelByName w (LevelName Rec)\<rparr> else Rec)
      in case Streaming Rec1 of
           None \<Rightarrow> (Rec1, [])
         | Some SL \<Rightarrow>
             if IsLevelLoaded w SL then
               (let bShowNow = (bMakeVisibleAfterLoad \<and> WarmUp \<le> 0)
                in (Rec1\<lparr>State := (if bShowNow then Visible else LoadedHidden),
                         WarmUpSeconds := (if bMakeVisibleAfterLoad \<and> WarmUp > 0 then WarmUp else 0)\<rparr>,
                    [SetShouldBeVisible SL bShowNow]))
             else
               (let bRequestVisibleNow = (bMakeVisibleAfterLoad \<and> WarmUp \<le> 0)
                in (Rec1\<lparr>State := (if bRequestVisibleNow then Visible else Loading),
                         WarmUpSeconds := (if bMakeVisibleAfterLoad then max 0 WarmUp else 0)\<rparr>,
                    [SetShouldBeLoaded SL True, SetShouldBeVisible SL bRequestVisibleNow])))"

definition ApplyUnload ::
  "'n streaming_world \<Rightarrow> 'n FTLDChunkRecord \<Rightarrow> 'n FTLDChunkRecord \<times> streaming_call list" where
  "ApplyUnload w Rec =
     (let Rec1 = (if Streaming Rec = None
                  then Rec\<lparr>Streaming := FindStreamingLevelByName w (LevelName Rec)\<rparr> else Rec)
      in case Streaming Rec1 of
           None \<Rightarrow> (Rec1\<lparr>State := Unloaded\<rparr>, [])
         | Some SL \<Rightarrow>
             (Rec1\<lparr>State := Unloaded, WarmUpSeconds := 0\<rparr>,
              [SetShouldBeVisible SL False, SetShouldBeLoaded SL False]))"

definition ApplyVisibility ::
  "'n streaming_world \<Rightarrow> 'n FTLDChunkRecord \<Rightarrow> bool \<Rightarrow>
   'n FTLDChunkRecord \<times> streaming_call list" where
  "ApplyVisibility w Rec bVisible =
     (let Rec1 = (if Streaming Rec = None
                  then Rec\<lparr>Streaming := FindStreamingLevelByName w (LevelName Rec)\<rparr> else Rec)
      in case Streaming Rec1 of
           None \<Rightarrow> (Rec1, [])
         | Some SL \<Rightarrow>
             if \<not> IsLevelLoaded w SL then
               (Rec1\<lparr>State := Loading\<rparr>, [SetShouldBeLoaded SL True, SetShouldBeVisible SL False])
             else
               (Rec1\<lparr>State := (if bVisible then Visible else LoadedHidden), WarmUpSeconds := 0\<rparr>,
                [SetShouldBeVisible SL bVisible]))"

definition LoadChunkAsync ::
  "'n streaming_world \<Rightarrow> 'n \<Rightarrow> bool \<Rightarrow> real \<Rightarrow> 'n ATLDLevelStreamingManager \<Rightarrow>
   'n ATLDLevelStreamingManager" where
  "LoadChunkAsync w n bMakeVisibleAfterLoad WarmUp s =
     (if IsNone w n then s
      else (let (Rec, s1) = GetOrAddRecord w n s
            in put_record n (ApplyLoad w Rec bMakeVisibleAfterLoad WarmUp) s1))"

definition UnloadChunkAsync ::
  "'n streaming_world \<Rightarrow> 'n \<Rightarrow> 'n ATLDLevelStreamingManager \<Rightarrow> 'n ATLDLevelStreamingManager" where
  "UnloadChunkAsync w n s =
     (if IsNone w n then s
      else (let (Rec, s1) = GetOrAddRecord w n s
            in put_record n (ApplyUnload w Rec) s1))"

definition SetChunkVisible ::
  "'n streaming_world \<Rightarrow> 'n \<Rightarrow> bool \<Rightarrow> 'n ATLDLevelStreamingManager \<Rightarrow>
   'n ATLDLevelStreamingManager" where
  "SetChunkVisible w n bVisible s =
     (if IsNone w n then s
      else (let (Rec, s1) = GetOrAddRecord w n s
            in put_record n (ApplyVisibility w Rec bVisible) s1))"

text \<open>The body of the loop of \<open>Tick\<close>, for one record.\<close>

definition tick_record ::
  "'n streaming_world \<Rightarrow> real \<Rightarrow> 'n FTLDChunkRecord \<Rightarrow>
   'n FTLDChunkRecord \<times> streaming_call list" where
  "tick_record w DeltaTime Rec =
     (let Rec1 = (if State Rec = Loading \<and>
                     (case Streaming Rec of Some SL \<Rightarrow> IsLevelLoaded w SL | None \<Rightarrow> False)
                  then Rec\<lparr>State := LoadedHidden\<rparr> else Rec)
      in if State Rec1 = LoadedHidden \<and> WarmUpSeconds Rec1 > 0 then
           (let Rec2 = Rec1\<lparr>WarmUpSeconds := WarmUpSeconds Rec1 - DeltaTime\<rparr>
            in if WarmUpSeconds Rec2 \<le> 0 then ApplyVisibility w Rec2 True else (Rec2, []))
         else (Rec1, []))"

fun tick_records ::
  "'n streaming_world \<Rightarrow> real \<Rightarrow> ('n \<times> 'n FTLDChunkRecord) list \<Rightarrow>
   ('n \<times> 'n FTLDChunkRecord) list \<times> streaming_call list" where
  "tick_records w DeltaTime [] = ([], [])"
| "tick_records w DeltaTime ((n, Rec) # rest) =
     (let (Rec', calls) = tick_record w DeltaTime Rec;
          (rest', calls') = tick_records w DeltaTime rest
      in ((n, Rec') # rest', calls @ calls'))"

definition Tick ::
  "'n streaming_world \<Rightarrow> real \<Rightarrow> 'n ATLDLevelStreamingManager \<Rightarrow> 'n ATLDLevelStreamingManager" where
  "Tick w DeltaTime s =
     (let (recs, calls) = tick_records w DeltaTime (ChunkRecords s)
      in s\<lparr>ChunkRecords := recs, StreamingCalls := StreamingCalls s @ calls\<rparr>)"

definition IsChunkLoaded ::
  "'n streaming_world \<Rightarrow> 'n \<Rightarrow> 'n ATLDLevelStreamingManager \<Rightarrow> bool" where
  "IsChunkLoaded w n s =
     (case map_of (ChunkRecords s) n of
        Some Rec \<Rightarrow> State Rec = LoadedHidden \<or> State Rec = Visible
      | None \<Rightarrow>
          (case FindStreamingLevelByName w n of
             Some SL \<Rightarrow> IsLevelLoaded w SL
           | None \<Rightarrow> False))"

definition IsChunkVisible ::
  "'n streaming_world \<Rightarrow> 'n \<Rightarrow> 'n ATLDLevelStreamingManager \<Rightarrow> bool" where
  "IsChunkVisible w n s =
     (case map_of (ChunkRecords s) n of
        Some Rec \<Rightarrow> State Rec = Visible
      | None \<Rightarrow>
          (case FindStreamingLevelByName w n of
             Some SL \<Rightarrow> IsLevelVisible w SL
           | None \<Rightarrow> False))"

text \<open>
  The streaming level a record stands for: the cached pointer, or what the lookup by the
  record's name finds when nothing is cached. For a name, it is that of its record, or of the
  record \<open>GetOrAddRecord\<close> would make.
\<close>

definition streaming_of :: "'n streaming_world \<Rightarrow> 'n FTLDChunkRecord \<Rightarrow> object option" where
  "streaming_of w Rec =
     (case Streaming Rec of Some SL \<Rightarrow> Some SL | None \<Rightarrow> FindStreamingLevelByName w (LevelName Rec))"

definition chunk_streaming ::
  "'n streaming_world \<Rightarrow> 'n \<Rightarrow> 'n ATLDLevelStreamingManager \<Rightarrow> object option" where
  "chunk_streaming w n s =
     (case map_of (ChunkRecords s) n of
        Some Rec \<Rightarrow> streaming_of w Rec
      | None \<Rightarrow> FindStreamingLevelByName w n)"

text \<open>
  The conditions of the two transitions of \<open>Tick\<close>. A record is ready for the warm-up
  countdown when it is in \<open>LoadedHidden\<close>, or in \<open>Loading\<close> with a streaming level that reports
  loaded; its warm-up expires in this frame when the timer is positive and the frame delta
  takes it to zero or below.
\<close>

definition level_ready :: "'n streaming_world \<Rightarrow> 'n FTLDChunkRecord \<Rightarrow> bool" where
  "level_ready w Rec \<longleftrightarrow>
     State Rec = LoadedHidden \<or>
     (State Rec = Loading \<and> (case Streaming Rec of Some SL \<Rightarrow> IsLevelLoaded w SL | None \<Rightarrow> False))"

definition warm_up_expires :: "real \<Rightarrow> 'n FTLDChunkRecord \<Rightarrow> bool" where
  "warm_up_expires DeltaTime Rec \<longleftrightarrow>
     WarmUpSeconds Rec > 0 \<and> WarmUpSeconds Rec - DeltaTime \<le> 0"

section \<open>TLDUIManager.cpp\<close>

datatype ESlateVisibility = SelfHitTestInvisible | Collapsed

text \<open>
  \<open>UTLDUIPayload_Channel\<close>, the payload object of the channel events, and
  \<open>FTLDOverlayConfig\<close> with the fields that widget creation and pooling read.
\<close>

record UTLDUIPayload_Channel =
  Label :: string
  Icon :: "object option"
  bShow :: bool
  bSuccess :: bool
  Progress01 :: real

record FTLDOverlayConfig =
  WidgetClass :: "object option"
  bPersistent :: bool

text \<open>
  Calls the manager makes on widgets: the two it makes when a widget leaves the screen, and
  \<open>ProcessEvent\<close> of the HUD root's \<open>ApplyUIEvent\<close> function with an event tag and a payload.
\<close>

datatype ui_call =
    RemoveFromParent object
  | SetVisibility object ESlateVisibility
  | ApplyUIEvent object string UTLDUIPayload_Channel

text \<open>
  What the UI manager can ask of the engine during one call: whether a weak pointer still
  points to a widget (\<open>Get()\<close> is not null), whether there is a world, whether
  \<open>CreateWidget\<close> gives a widget, and whether a widget has an \<open>ApplyUIEvent\<close> function.
\<close>

record ui_engine =
  WidgetValid :: "object \<Rightarrow> bool"
  UIWorld :: bool
  CreateWidgetSucceeds :: bool
  HasApplyUIEvent :: "object \<Rightarrow> bool"

text \<open>
  The manager. The overlay enum \<open>ETLDUIOverlay\<close> is declared outside the sources at hand and
  is a type parameter. \<open>LiveWidgets\<close> and \<open>Pooled\<close> are the two \<open>TMap\<close>s; \<open>NextWidget\<close> is the
  supply of fresh handles for \<open>CreateWidget\<close>.
\<close>

record 'o UTLDUIManager =
  LiveWidgets :: "'o \<rightharpoonup> object"
  Pooled :: "'o \<rightharpoonup> object list"
  HUDRoot :: "object option"
  NextWidget :: object
  UICalls :: "ui_call list"

definition ui_call :: "ui_call \<Rightarrow> 'o UTLDUIManager \<Rightarrow> 'o UTLDUIManager" where
  "ui_call c s = s\<lparr>UICalls := UICalls s @ [c]\<rparr>"

text \<open>\<open>LiveWidgets.FindRef(Overlay).Get()\<close>.\<close>

definition live_widget :: "ui_engine \<Rightarrow> 'o UTLDUIManager \<Rightarrow> 'o \<Rightarrow> object option" where
  "live_widget e s Overlay =
     (case LiveWidgets s Overlay of
        Some W \<Rightarrow> if WidgetValid e W then Some W else None
      | None \<Rightarrow> None)"

definition RemoveAt :: "nat \<Rightarrow> 'a list \<Rightarrow> 'a list" where
  "RemoveAt i xs = take i xs @ drop (Suc i) xs"

text \<open>
  The backwards loop over the pool in \<open>CreateOrReuse\<close>; the counter is the loop index plus
  one. It returns the widget found, if any, and the array as the loop leaves it.
\<close>

fun scan_pool :: "(object \<Rightarrow> bool) \<Rightarrow> nat \<Rightarrow> object list \<Rightarrow> object option \<times> object list" where
  "scan_pool valid 0 Pool = (None, Pool)"
| "scan_pool valid (Suc i) Pool =
     (if valid (Pool ! i) then (Some (Pool ! i), RemoveAt i Pool)
      else scan_pool valid i (RemoveAt i Pool))"

text \<open>The last part of \<open>CreateOrReuse\<close>: creating a fresh widget.\<close>

definition create_fresh ::
  "ui_engine \<Rightarrow> 'o \<Rightarrow> FTLDOverlayConfig \<Rightarrow> 'o UTLDUIManager \<Rightarrow>
   object option \<times> 'o UTLDUIManager" where
  "create_fresh e Overlay Cfg s =
     (case WidgetClass Cfg of
        None \<Rightarrow> (None, s)
      | Some cls \<Rightarrow>
          if UIWorld e then
            (if CreateWidgetSucceeds e
             then (Some (NextWidget s),
                   s\<lparr>NextWidget := Suc (NextWidget s),
                     LiveWidgets := (LiveWidgets s)(Overlay \<mapsto> NextWidget s)\<rparr>)
             else (None, s))
          else (None, s))"

definition CreateOrReuse ::
  "ui_engine \<Rightarrow> 'o \<Rightarrow> FTLDOverlayConfig \<Rightarrow> 'o UTLDUIManager \<Rightarrow>
   object option \<times> 'o UTLDUIManager" where
  "CreateOrReuse e Overlay Cfg s =
     (case live_widget e s Overlay of
        Some Live \<Rightarrow> (Some Live, s)
      | None \<Rightarrow>
          (case Pooled s Overlay of
             Some Pool \<Rightarrow>
               (case scan_pool (WidgetValid e) (length Pool) Pool of
                  (Some P, Pool') \<Rightarrow>
                    (Some P, s\<lparr>Pooled := (Pooled s)(Overlay \<mapsto> Pool'),
                               LiveWidgets := (LiveWidgets s)(Overlay \<mapsto> P)\<rparr>)
                | (None, Pool') \<Rightarrow>
                    create_fresh e Overlay Cfg (s\<lparr>Pooled := (Pooled s)(Overlay \<mapsto> Pool')\<rparr>))
           | None \<Rightarrow> create_fresh e Overlay Cfg s))"

definition ReturnToPoolOrDiscard ::
  "'o \<Rightarrow> object option \<Rightarrow> bool \<Rightarrow> 'o UTLDUIManager \<Rightarrow> 'o UTLDUIManager" where
  "ReturnToPoolOrDiscard Overlay Widget bKeepInPool s =
     (case Widget of
        None \<Rightarrow> s
      | Some W \<Rightarrow>
          (let s1 = ui_call (SetVisibility W Collapsed) (ui_call (RemoveFromParent W) s);
               s2 = s1\<lparr>LiveWidgets := (LiveWidgets s1)(Overlay := None)\<rparr>
           in if bKeepInPool
              then s2\<lparr>Pooled := (Pooled s2)(Overlay \<mapsto>
                         (case Pooled s2 Overlay of Some Pool \<Rightarrow> Pool | None \<Rightarrow> []) @ [W])\<rparr>
              else s2))"

definition HUD_SendEvent ::
  "ui_engine \<Rightarrow> string \<Rightarrow> UTLDUIPayload_Channel \<Rightarrow> 'o UTLDUIManager \<Rightarrow> 'o UTLDUIManager" where
  "HUD_SendEvent e EventTag Payload s =
     (case HUDRoot s of
        None \<Rightarrow> s
      | Some H \<Rightarrow>
          if \<not> WidgetValid e H then s
          else if HasApplyUIEvent e H then ui_call (ApplyUIEvent H EventTag Payload) s
          else s)"

text \<open>
  \<open>FMath::Clamp\<close> is the engine's: below the minimum the minimum, below the maximum the
  value, otherwise the maximum.
\<close>

definition Clamp :: "real \<Rightarrow> real \<Rightarrow> real \<Rightarrow> real" where
  "Clamp X MinV MaxV = (if X < MinV then MinV else if X < MaxV then X else MaxV)"

text \<open>
  \<open>OnChannelTick_UI\<close>. The second argument is the payload object as \<open>NewObject\<close> makes it,
  before the handler sets its progress.
\<close>

definition OnChannelTick_UI ::
  "ui_engine \<Rightarrow> UTLDUIPayload_Channel \<Rightarrow> real \<Rightarrow> real \<Rightarrow> 'o UTLDUIManager \<Rightarrow> 'o UTLDUIManager" where
  "OnChannelTick_UI e NewPayload Elapsed TotalTime s =
     (let Progress = (if TotalTime > 0 then Clamp (Elapsed / TotalTime) 0 1 else 0);
          P = NewPayload\<lparr>Progress01 := Progress\<rparr>
      in HUD_SendEvent e ''UI.HUD.Channel.Progress'' P s)"

text \<open>The pool of an overlay, empty when the overlay has no entry in \<open>Pooled\<close>.\<close>

definition pool_of :: "'o UTLDUIManager \<Rightarrow> 'o \<Rightarrow> object list" where
  "pool_of s Overlay = (case Pooled s Overlay of Some Pool \<Rightarrow> Pool | None \<Rightarrow> [])"

text \<open>No widget is live for one overlay and in the pool of any overlay.\<close>

definition never_both :: "'o UTLDUIManager \<Rightarrow> bool" where
  "never_both s \<longleftrightarrow> (\<forall>Overlay W. LiveWidgets s Overlay = Some W \<longrightarrow> (\<forall>Other. W \<notin> set (pool_of s Other)))"

text \<open>
  The bookkeeping invariant: no widget is both live and pooled, no widget is pooled twice or
  live for two overlays, and every tracked widget was handed out by \<open>CreateWidget\<close> before.
\<close>

definition ui_inv :: "'o UTLDUIManager \<Rightarrow> bool" where
  "ui_inv s \<longleftrightarrow>
     never_both s \<and>
     (\<forall>Overlay. distinct (pool_of s Overlay)) \<and>
     (\<forall>Overlay Other. Overlay \<noteq> Other \<longrightarrow> set (pool_of s Overlay) \<inter> set (pool_of s Other) = {}) \<and>
     (\<forall>Overlay Other W. LiveWidgets s Overlay = Some W \<and> LiveWidgets s Other = Some W \<longrightarrow> Overlay = Other) \<and>
     (\<forall>Overlay W. LiveWidgets s Overlay = Some W \<longrightarrow> W < NextWidget s) \<and>
     (\<forall>Overlay. \<forall>W \<in> set (pool_of s Overlay). W < NextWidget s)"

section \<open>TLDCinematicConfig.cpp and TLDCinematicManager.cpp\<close>

text \<open>
  A soft object pointer is null, or a path together with what \<open>LoadSynchronous\<close> returns for
  it (\<open>None\<close> when the asset does not load). \<open>ToSoftObjectPath().IsValid()\<close> holds of every
  pointer that is not null.
\<close>

datatype 'a soft_ptr = SoftNull | SoftPath "'a option"

fun LoadSynchronous :: "'a soft_ptr \<Rightarrow> 'a option" where
  "LoadSynchronous SoftNull = None"
| "LoadSynchronous (SoftPath loaded) = loaded"

fun IsNull :: "'a soft_ptr \<Rightarrow> bool" where
  "IsNull SoftNull = True"
| "IsNull (SoftPath _) = False"

record FTLDCinematicEntry =
  CinematicName :: string
  Sequence :: "object soft_ptr"

record UTLDCinematicConfig =
  Cinematics :: "FTLDCinematicEntry list"

record UTLDProjectSettings =
  CinematicConfigAsset :: "UTLDCinematicConfig soft_ptr"

fun find_sequence :: "FTLDCinematicEntry list \<Rightarrow> string \<Rightarrow> object option" where
  "find_sequence [] Name = None"
| "find_sequence (Entry # rest) Name =
     (if equals_ignore_case (CinematicName Entry) Name \<and> \<not> IsNull (Sequence Entry)
      then LoadSynchronous (Sequence Entry)
      else find_sequence rest Name)"

definition GetSequenceByName :: "UTLDCinematicConfig \<Rightarrow> string \<Rightarrow> object option" where
  "GetSequenceByName Config Name = find_sequence (Cinematics Config) Name"

text \<open>Calls the cinematic manager makes on the player controller and the sequence player.\<close>

datatype cinematic_call =
    SetPause bool
  | Play object
  | StopPlayer object

text \<open>
  What the cinematic manager can ask of the engine during one call: whether there is a
  world, whether the world has a player controller, and the player and the actor that
  \<open>CreateLevelSequencePlayer\<close> gives.
\<close>

record cinematic_engine =
  CinWorld :: bool
  HasPlayerController :: bool
  CreatedPlayer :: "object option"
  CreatedActor :: "object option"

text \<open>
  The manager's fields. The two timer handles hold the delay of a timer that is set and has
  not fired. \<open>Started\<close> lists the players on which \<open>Play\<close> was called and that have neither
  finished nor been stopped: the players whose \<open>OnFinished\<close> can still fire.
\<close>

record UTLDCinematicManager =
  PendingSequence :: "object option"
  bPendingPause :: bool
  bPendingSkippable :: bool
  PendingPostDelay :: real
  bIsPlaying :: bool
  bAllowSkip :: bool
  ActivePlayer :: "object option"
  ActiveActor :: "object option"
  PreDelayHandle :: "real option"
  PostDelayHandle :: "real option"
  Started :: "object list"
  CinematicCalls :: "cinematic_call list"

definition cinematic_call :: "cinematic_call \<Rightarrow> UTLDCinematicManager \<Rightarrow> UTLDCinematicManager" where
  "cinematic_call c s = s\<lparr>CinematicCalls := CinematicCalls s @ [c]\<rparr>"

definition ApplyPause :: "cinematic_engine \<Rightarrow> bool \<Rightarrow> UTLDCinematicManager \<Rightarrow> UTLDCinematicManager" where
  "ApplyPause e bPause s =
     (if CinWorld e then (if HasPlayerController e then cinematic_call (SetPause bPause) s else s)
      else s)"

definition StartSequence :: "cinematic_engine \<Rightarrow> UTLDCinematicManager \<Rightarrow> UTLDCinematicManager" where
  "StartSequence e s =
     (if PendingSequence s = None \<or> \<not> CinWorld e then s\<lparr>bIsPlaying := False\<rparr>
      else
        (let s1 = s\<lparr>ActivePlayer := CreatedPlayer e, ActiveActor := CreatedActor e\<rparr>
         in case (ActivePlayer s1, ActiveActor s1) of
              (Some Player, Some Actor) \<Rightarrow>
                (let s2 = ApplyPause e (bPendingPause s1) s1;
                     s3 = s2\<lparr>bAllowSkip := bPendingSkippable s2\<rparr>
                 in (cinematic_call (Play Player) s3)\<lparr>Started := Player # Started s3\<rparr>)
            | _ \<Rightarrow> s1\<lparr>bIsPlaying := False\<rparr>))"

definition PlaySequence ::
  "cinematic_engine \<Rightarrow> object option \<Rightarrow> bool \<Rightarrow> bool \<Rightarrow> real \<Rightarrow> real \<Rightarrow>
   UTLDCinematicManager \<Rightarrow> UTLDCinematicManager" where
  "PlaySequence e Seq bPauseGame bSkippable PreDelay PostDelay s =
     (if Seq = None \<or> \<not> CinWorld e then s
      else if bIsPlaying s then s
      else
        (let s1 = s\<lparr>PendingSequence := Seq, bPendingPause := bPauseGame,
                     bPendingSkippable := bSkippable, PendingPostDelay := max 0 PostDelay,
                     bIsPlaying := True, bAllowSkip := False\<rparr>
         in if PreDelay > 0 then s1\<lparr>PreDelayHandle := Some PreDelay\<rparr>
            else StartSequence e s1))"

text \<open>
  \<open>PlayCinematicByName\<close>. The second argument is \<open>UTLDProjectSettings::Get()\<close>, \<open>None\<close> when
  there are no settings. The result is the returned flag and the manager afterwards.
\<close>

definition PlayCinematicByName ::
  "cinematic_engine \<Rightarrow> UTLDProjectSettings option \<Rightarrow> string \<Rightarrow> bool \<Rightarrow> bool \<Rightarrow> real \<Rightarrow> real \<Rightarrow>
   UTLDCinematicManager \<Rightarrow> bool \<times> UTLDCinematicManager" where
  "PlayCinematicByName e Settings Name bPauseGame bSkippable PreDelay PostDelay s =
     (if Name = [] then (False, s)
      else case Settings of
        None \<Rightarrow> (False, s)
      | Some ProjectSettings \<Rightarrow>
          if IsNull (CinematicConfigAsset ProjectSettings) then (False, s)
          else case LoadSynchronous (CinematicConfigAsset ProjectSettings) of
            None \<Rightarrow> (False, s)
          | Some Config \<Rightarrow>
              (case GetSequenceByName Config Name of
                 None \<Rightarrow> (False, s)
               | Some Seq \<Rightarrow>
                   (True, PlaySequence e (Some Seq) bPauseGame bSkippable PreDelay PostDelay s)))"

text \<open>The cleanup both branches of \<open>HandleSequenceFinished\<close> end with, at once or in the timer.\<close>

definition finish_cleanup :: "cinematic_engine \<Rightarrow> UTLDCinematicManager \<Rightarrow> UTLDCinematicManager" where
  "finish_cleanup e s =
     (ApplyPause e False s)\<lparr>ActivePlayer := None, ActiveActor := None, bIsPlaying := False\<rparr>"

definition HandleSequenceFinished ::
  "cinematic_engine \<Rightarrow> UTLDCinematicManager \<Rightarrow> UTLDCinematicManager" where
  "HandleSequenceFinished e s =
     (if \<not> CinWorld e then s\<lparr>bIsPlaying := False\<rparr>
      else
        (let s1 = s\<lparr>bAllowSkip := False\<rparr>
         in if PendingPostDelay s1 > 0 then s1\<lparr>PostDelayHandle := Some (PendingPostDelay s1)\<rparr>
            else finish_cleanup e s1))"

definition SkipCurrentCinematic ::
  "cinematic_engine \<Rightarrow> UTLDCinematicManager \<Rightarrow> UTLDCinematicManager" where
  "SkipCurrentCinematic e s =
     (if \<not> bIsPlaying s \<or> \<not> bAllowSkip s \<or> ActivePlayer s = None then s
      else case ActivePlayer s of
        None \<Rightarrow> s
      | Some Player \<Rightarrow>
          HandleSequenceFinished e
            ((cinematic_call (StopPlayer Player) s)\<lparr>Started := removeAll Player (Started s)\<rparr>))"

text \<open>
  What can happen to the manager: a call of \<open>PlaySequence\<close> or \<open>SkipCurrentCinematic\<close>, the
  pre-delay timer firing (it runs \<open>StartSequence\<close>), a started player finishing (its
  \<open>OnFinished\<close> runs \<open>HandleSequenceFinished\<close>), and the post-delay timer firing (it runs the
  cleanup). A timer fires only while it is set, and only a started player finishes.
\<close>

datatype cinematic_event =
    CallPlaySequence "object option" bool bool real real
  | CallSkipCurrentCinematic
  | PreDelayElapsed
  | PlayerFinished object
  | PostDelayElapsed

fun cinematic_step ::
  "cinematic_engine \<Rightarrow> cinematic_event \<Rightarrow> UTLDCinematicManager \<Rightarrow> UTLDCinematicManager" where
  "cinematic_step e (CallPlaySequence Seq bPauseGame bSkippable PreDelay PostDelay) s =
     PlaySequence e Seq bPauseGame bSkippable PreDelay PostDelay s"
| "cinematic_step e CallSkipCurrentCinematic s = SkipCurrentCinematic e s"
| "cinematic_step e PreDelayElapsed s =
     (case PreDelayHandle s of
        None \<Rightarrow> s
      | Some _ \<Rightarrow> StartSequence e (s\<lparr>PreDelayHandle := None\<rparr>))"
| "cinematic_step e (PlayerFinished Player) s =
     (if Player \<in> set (Started s)
      then HandleSequenceFinished e (s\<lparr>Started := removeAll Player (Started s)\<rparr>)
      else s)"
| "cinematic_step e PostDelayElapsed s =
     (case PostDelayHandle s of
        None \<Rightarrow> s
      | Some _ \<Rightarrow> finish_cleanup e (s\<lparr>PostDelayHandle := None\<rparr>))"

fun cinematic_run ::
  "(cinematic_engine \<times> cinematic_event) list \<Rightarrow> UTLDCinematicManager \<Rightarrow> UTLDCinematicManager" where
  "cinematic_run [] s = s"
| "cinematic_run ((e, ev) # rest) s = cinematic_run rest (cinematic_step e ev s)"

text \<open>The events whose handler runs \<open>HandleSequenceFinished\<close>.\<close>

fun runs_finish_handler :: "cinematic_event \<Rightarrow> bool" where
  "runs_finish_handler CallSkipCurrentCinematic = True"
| "runs_finish_handler (PlayerFinished _) = True"
| "runs_finish_handler _ = False"

text \<open>
  The config asset the project settings lead to, \<open>None\<close> when there are no settings, the asset
  is unset or it does not load; and the entry \<open>GetSequenceByName\<close> stops at: the first one whose
  name equals the given name and whose sequence reference is valid.
\<close>

definition loaded_config :: "UTLDProjectSettings option \<Rightarrow> UTLDCinematicConfig option" where
  "loaded_config Settings =
     (case Settings of
        None \<Rightarrow> None
      | Some ProjectSettings \<Rightarrow> LoadSynchronous (CinematicConfigAsset ProjectSettings))"

definition matching_entry :: "UTLDCinematicConfig \<Rightarrow> string \<Rightarrow> FTLDCinematicEntry option" where
  "matching_entry Config Name =
     find (\<lambda>Entry. equals_ignore_case (CinematicName Entry) Name \<and> \<not> IsNull (Sequence Entry))
       (Cinematics Config)"

text \<open>
  The phases of the manager: idle; waiting for the pre-delay timer; a started player running,
  which is the active player; waiting for the post-delay timer.
\<close>

definition cin_inv :: "UTLDCinematicManager \<Rightarrow> bool" where
  "cin_inv s \<longleftrightarrow>
     (\<not> bIsPlaying s \<and> \<not> bAllowSkip s \<and> PreDelayHandle s = None \<and> PostDelayHandle s = None \<and>
        Started s = []) \<or>
     (bIsPlaying s \<and> \<not> bAllowSkip s \<and> PreDelayHandle s \<noteq> None \<and> PostDelayHandle s = None \<and>
        Started s = []) \<or>
     (bIsPlaying s \<and> PreDelayHandle s = None \<and> PostDelayHandle s = None \<and>
        (case ActivePlayer s of Some Player \<Rightarrow> Started s = [Player] | None \<Rightarrow> False)) \<or>
     (bIsPlaying s \<and> \<not> bAllowSkip s \<and> PreDelayHandle s = None \<and> PostDelayHandle s \<noteq> None \<and>
        Started s = [])"

section \<open>Example states\<close>

text \<open>
  Example states of the cinematic manager: the manager as constructed (a \<open>UObject\<close> starts
  zeroed), an engine that creates player 2 with actor 3, the same engine without a world, and
  two project settings: one whose only entry \<open>Intro\<close> has a sequence that does not load, one
  with an \<open>Outro\<close> without sequence and an \<open>Intro\<close> whose sequence loads as object 1.
\<close>

definition cinematic_idle :: UTLDCinematicManager where
  "cinematic_idle = \<lparr>PendingSequence = None, bPendingPause = False, bPendingSkippable = False,
     PendingPostDelay = 0, bIsPlaying = False, bAllowSkip = False, ActivePlayer = None,
     ActiveActor = None, PreDelayHandle = None, PostDelayHandle = None, Started = [],
     CinematicCalls = []\<rparr>"

definition cinematic_engine0 :: cinematic_engine where
  "cinematic_engine0 = \<lparr>CinWorld = True, HasPlayerController = True, CreatedPlayer = Some 2,
     CreatedActor = Some 3\<rparr>"

definition cinematic_engine_no_world :: cinematic_engine where
  "cinematic_engine_no_world = cinematic_engine0\<lparr>CinWorld := False\<rparr>"

definition intro_unloadable :: UTLDProjectSettings where
  "intro_unloadable = \<lparr>CinematicConfigAsset =
     SoftPath (Some \<lparr>Cinematics = [\<lparr>CinematicName = ''Intro'', Sequence = SoftPath None\<rparr>]\<rparr>)\<rparr>"

definition intro_settings :: UTLDProjectSettings where
  "intro_settings = \<lparr>CinematicConfigAsset =
     SoftPath (Some \<lparr>Cinematics = [\<lparr>CinematicName = ''Outro'', Sequence = SoftNull\<rparr>,
                                     \<lparr>CinematicName = ''Intro'', Sequence = SoftPath (Some 1)\<rparr>]\<rparr>)\<rparr>"

text \<open>
  An example world for string names: one streaming level, handle 1, short name \<open>Forest\<close>,
  which the engine's own lookup does not find and which reports neither loaded nor visible;
  and the same world once the level reports loaded.
\<close>

definition world0 :: "string streaming_world" where
  "world0 = \<lparr>HasWorld = True, GetStreamingLevel = (\<lambda>_. None), StreamingLevels = [None, Some 1],
     ShortName = (\<lambda>_. ''Forest''), IsLevelLoaded = (\<lambda>_. False), IsLevelVisible = (\<lambda>_. False),
     IsNone = (\<lambda>n. n = []), ToString = (\<lambda>n. n), DefaultWarmUpSeconds = 0\<rparr>"

definition world1 :: "string streaming_world" where
  "world1 = world0\<lparr>IsLevelLoaded := (\<lambda>_. True)\<rparr>"

definition manager0 :: "string ATLDLevelStreamingManager" where
  "manager0 = \<lparr>ChunkRecords = [], StreamingCalls = []\<rparr>"

text \<open>
  Example states of the UI manager: overlays named by strings, widget 5 live as the HUD (and
  the HUD root), widgets 7 and 8 pooled for the pause overlay; an engine for which widget 8 no
  longer exists; and a payload object as created.
\<close>

definition uiS :: "string UTLDUIManager" where
  "uiS = \<lparr>LiveWidgets = [''HUD'' \<mapsto> 5], Pooled = [''Pause'' \<mapsto> [7, 8]], HUDRoot = Some 5,
     NextWidget = 9, UICalls = []\<rparr>"

definition ui_engine1 :: ui_engine where
  "ui_engine1 = \<lparr>WidgetValid = (\<lambda>W. W \<noteq> 8), UIWorld = True, CreateWidgetSucceeds = True,
     HasApplyUIEvent = (\<lambda>_. True)\<rparr>"

definition payload0 :: UTLDUIPayload_Channel where
  "payload0 = \<lparr>Label = [], Icon = None, bShow = False, bSuccess = False, Progress01 = 0\<rparr>"

text \<open>A manager before \<open>Initialize\<close>, with string tags and numbered music states, for examples.\<close>

definition audio0 :: "(string, nat) UTLDAudioManager" where
  "audio0 = \<lparr>Catalog = None, CurrentMusicTag = ''Music.None'', CurrentState = 0,
     MusicByState = Map.empty, MusicClass = None, DefaultMix = None, MusicAC = None,
     ActiveMusic = None, InactiveMusic = None, SFXPool = [], PoolIndex = 0, NextObject = 100,
     AudioCalls = []\<rparr>"

definition audio1 :: "(string, nat) UTLDAudioManager" where
  "audio1 = audio0\<lparr>Catalog := Some \<lparr>MusicByTag = [''Music.Combat'' \<mapsto> Some 7], SFXByTag = Map.empty\<rparr>\<rparr>"

section \<open>Properties of the audio manager\<close>

lemma GetPooledSFX_in_range:
  assumes "SFXPool s \<noteq> []" "0 \<le> PoolIndex s" "PoolIndex s < int (length (SFXPool s))"
  shows "GetPooledSFX s =
           Some (Some (SFXPool s ! nat (PoolIndex s)),
                 s\<lparr>PoolIndex := (PoolIndex s + 1) mod int (length (SFXPool s))\<rparr>)"
  using assms by (simp add: GetPooledSFX_def)

lemma GetPooledSFX_times_run:
  assumes "SFXPool s \<noteq> []" "0 \<le> PoolIndex s" "PoolIndex s < int (length (SFXPool s))"
  shows "GetPooledSFX_times n s =
           Some (map (\<lambda>k. Some (SFXPool s ! ((nat (PoolIndex s) + k) mod length (SFXPool s)))) [0..<n],
                 s\<lparr>PoolIndex := (PoolIndex s + int n) mod int (length (SFXPool s))\<rparr>)"
  using assms
proof (induction n arbitrary: s)
  case 0
  then show ?case by simp
next
  case (Suc n)
  let ?N = "length (SFXPool s)"
  let ?s1 = "s\<lparr>PoolIndex := (PoolIndex s + 1) mod int ?N\<rparr>"
  have step: "GetPooledSFX s = Some (Some (SFXPool s ! nat (PoolIndex s)), ?s1)"
    using Suc.prems by (rule GetPooledSFX_in_range)
  have N: "0 < ?N" using Suc.prems by simp
  have p1: "SFXPool ?s1 \<noteq> []" "0 \<le> PoolIndex ?s1" "PoolIndex ?s1 < int (length (SFXPool ?s1))"
    using Suc.prems N by simp_all
  have idx: "nat (PoolIndex ?s1) = (nat (PoolIndex s) + 1) mod ?N"
    using Suc.prems N by (simp add: nat_mod_distrib nat_add_distrib)
  have rest: "GetPooledSFX_times n ?s1 =
      Some (map (\<lambda>k. Some (SFXPool s ! ((nat (PoolIndex ?s1) + k) mod ?N))) [0..<n],
            ?s1\<lparr>PoolIndex := (PoolIndex ?s1 + int n) mod int ?N\<rparr>)"
    using Suc.IH [OF p1] by simp
  have shift: "\<And>k. ((nat (PoolIndex s) + 1) mod ?N + k) mod ?N = (nat (PoolIndex s) + Suc k) mod ?N"
    by (simp add: mod_add_left_eq)
  have fin: "((PoolIndex s + 1) mod int ?N + int n) mod int ?N = (PoolIndex s + int (Suc n)) mod int ?N"
  proof -
    have "((PoolIndex s + 1) mod int ?N + int n) mod int ?N = ((PoolIndex s + 1) + int n) mod int ?N"
      by (rule mod_add_left_eq)
    then show ?thesis by (simp add: add.assoc)
  qed
  have first: "nat (PoolIndex s) mod ?N = nat (PoolIndex s)"
    using Suc.prems by simp
  have l: "[0..<Suc n] = 0 # map Suc [0..<n]"
    by (simp add: upt_conv_Cons map_Suc_upt del: upt_Suc)
  have "GetPooledSFX_times (Suc n) s =
      Some (Some (SFXPool s ! nat (PoolIndex s)) #
              map (\<lambda>k. Some (SFXPool s ! ((nat (PoolIndex ?s1) + k) mod ?N))) [0..<n],
            ?s1\<lparr>PoolIndex := (PoolIndex ?s1 + int n) mod int ?N\<rparr>)"
    by (simp only: GetPooledSFX_times.simps step rest option.case prod.case)
  also have "map (\<lambda>k. Some (SFXPool s ! ((nat (PoolIndex ?s1) + k) mod ?N))) [0..<n] =
      map (\<lambda>k. Some (SFXPool s ! ((nat (PoolIndex s) + k) mod ?N))) (map Suc [0..<n])"
    by (simp only: idx shift map_map comp_def)
  also have "Some (SFXPool s ! nat (PoolIndex s)) = Some (SFXPool s ! ((nat (PoolIndex s) + 0) mod ?N))"
    using first by simp
  also have "?s1\<lparr>PoolIndex := (PoolIndex ?s1 + int n) mod int ?N\<rparr> =
      s\<lparr>PoolIndex := (PoolIndex s + int (Suc n)) mod int ?N\<rparr>"
    using fin by simp
  finally show ?case
    by (simp only: l list.map)
qed

lemma mset_rotate_same: "mset (rotate n xs) = mset xs"
proof -
  let ?k = "n mod length xs"
  have "mset (rotate n xs) = mset (drop ?k xs) + mset (take ?k xs)"
    by (simp add: rotate_drop_take)
  also have "\<dots> = mset (take ?k xs @ drop ?k xs)"
    by (simp only: mset_append add.commute)
  finally show ?thesis by simp
qed

lemma add_pool_components_pool:
  "SFXPool (add_pool_components n s) = SFXPool s @ [NextObject s ..< NextObject s + n] \<and>
   PoolIndex (add_pool_components n s) = PoolIndex s \<and>
   NextObject (add_pool_components n s) = NextObject s + n"
proof (induction n arbitrary: s)
  case 0
  then show ?case by simp
next
  case (Suc n)
  let ?s1 = "(snd (NewAudioComponent s))\<lparr>SFXPool := SFXPool s @ [NextObject s]\<rparr>"
  have u: "add_pool_components (Suc n) s = add_pool_components n ?s1"
    by (simp add: NewAudioComponent_def audio_call_def)
  have f: "SFXPool ?s1 = SFXPool s @ [NextObject s]" "PoolIndex ?s1 = PoolIndex s"
    "NextObject ?s1 = Suc (NextObject s)"
    by (simp_all add: NewAudioComponent_def audio_call_def)
  show ?case
    unfolding u using Suc.IH [of ?s1] f by (simp add: upt_conv_Cons)
qed

lemma Initialize_pool:
  assumes "SFXPool s = []" "0 \<le> PoolIndex s" "PoolIndex s < 16"
  shows "SFXPool (Initialize (Some (Some cat)) s) = [NextObject s ..< NextObject s + 16] \<and>
         PoolIndex (Initialize (Some (Some cat)) s) = PoolIndex s"
proof -
  let ?s1 = "s\<lparr>Catalog := Some cat\<rparr>"
  have "SFXPool (EnsureMusicComponent (add_pool_components 16 ?s1)) =
          SFXPool (add_pool_components 16 ?s1) \<and>
        PoolIndex (EnsureMusicComponent (add_pool_components 16 ?s1)) =
          PoolIndex (add_pool_components 16 ?s1)"
    by (simp add: EnsureMusicComponent_def NewAudioComponent_def audio_call_def Let_def
        split: option.split)
  then show ?thesis
    using add_pool_components_pool [of 16 ?s1] assms(1)
    by (simp add: Initialize_def Let_def audio_call_def split: option.split)
qed

text \<open>
  Claim C9. The SFX pool is served round-robin. On an empty pool \<open>GetPooledSFX\<close> returns
  \<open>nullptr\<close> and changes nothing. On a pool of \<open>N\<close> components with \<open>PoolIndex\<close> inside the
  pool it returns the component at \<open>PoolIndex\<close> and advances \<open>PoolIndex\<close> by one modulo \<open>N\<close>;
  \<open>N\<close> consecutive calls return the pool rotated by \<open>PoolIndex\<close>, which has every pooled
  component exactly as often as the pool has it, and leave the manager as it was.
\<close>

theorem GetPooledSFX_round_robin:
  assumes "SFXPool s = [] \<or> (0 \<le> PoolIndex s \<and> PoolIndex s < int (length (SFXPool s)))"
  shows "GetPooledSFX s =
           (if SFXPool s = [] then Some (None, s)
            else Some (Some (SFXPool s ! nat (PoolIndex s)),
                       s\<lparr>PoolIndex := (PoolIndex s + 1) mod int (length (SFXPool s))\<rparr>)) \<and>
         GetPooledSFX_times (length (SFXPool s)) s =
           Some (map Some (rotate (nat (PoolIndex s)) (SFXPool s)), s) \<and>
         mset (rotate (nat (PoolIndex s)) (SFXPool s)) = mset (SFXPool s)"
proof (cases "SFXPool s = []")
  case True
  then show ?thesis by (simp add: GetPooledSFX_def)
next
  case False
  with assms have r: "0 \<le> PoolIndex s" "PoolIndex s < int (length (SFXPool s))" by simp_all
  let ?N = "length (SFXPool s)"
  have one: "GetPooledSFX s = Some (Some (SFXPool s ! nat (PoolIndex s)),
                 s\<lparr>PoolIndex := (PoolIndex s + 1) mod int ?N\<rparr>)"
    using False r by (rule GetPooledSFX_in_range)
  have "map (\<lambda>k. Some (SFXPool s ! ((nat (PoolIndex s) + k) mod ?N))) [0..<?N] =
        map Some (rotate (nat (PoolIndex s)) (SFXPool s))"
    by (rule nth_equalityI) (simp_all add: nth_rotate add.commute)
  moreover have "s\<lparr>PoolIndex := (PoolIndex s + int ?N) mod int ?N\<rparr> = s"
    using r by simp
  ultimately have many: "GetPooledSFX_times ?N s =
      Some (map Some (rotate (nat (PoolIndex s)) (SFXPool s)), s)"
    using GetPooledSFX_times_run [OF False r, of ?N] by simp
  show ?thesis using False one many by (simp add: mset_rotate_same)
qed

theorem GetPooledSFX_round_robin_witness:
  "(let s1 = audio0\<lparr>SFXPool := [100, 101, 102], PoolIndex := 1\<rparr>
    in (0 \<le> PoolIndex s1 \<and> PoolIndex s1 < int (length (SFXPool s1))) \<and>
       GetPooledSFX s1 = Some (Some 101, s1\<lparr>PoolIndex := 2\<rparr>) \<and>
       GetPooledSFX_times 3 s1 = Some ([Some 101, Some 102, Some 100], s1)) \<and>
   SFXPool audio0 = [] \<and> GetPooledSFX audio0 = Some (None, audio0) \<and>
   (let s2 = Initialize (Some (Catalog audio1)) audio0
    in SFXPool s2 = [100..<116] \<and> PoolIndex s2 = 0 \<and>
       GetPooledSFX_times 16 s2 = Some (map Some [100..<116], s2))"
proof -
  let ?s1 = "audio0\<lparr>SFXPool := [100, 101, 102], PoolIndex := 1\<rparr>"
  let ?s2 = "Initialize (Some (Catalog audio1)) audio0"
  have h: "SFXPool ?s1 = [] \<or> (0 \<le> PoolIndex ?s1 \<and> PoolIndex ?s1 < int (length (SFXPool ?s1)))"
    by simp
  have e: "SFXPool audio0 = []" by (simp add: audio0_def)
  then have h0: "SFXPool audio0 = [] \<or>
      (0 \<le> PoolIndex audio0 \<and> PoolIndex audio0 < int (length (SFXPool audio0)))"
    by simp
  have three: "length (SFXPool ?s1) = 3" by simp
  have rot: "rotate (nat (PoolIndex ?s1)) (SFXPool ?s1) = [101, 102, 100]"
    by (simp add: rotate1_def)
  have t1: "GetPooledSFX ?s1 = Some (Some 101, ?s1\<lparr>PoolIndex := 2\<rparr>)"
    using conjunct1 [OF GetPooledSFX_round_robin [OF h]] by simp
  have t2: "GetPooledSFX_times 3 ?s1 = Some ([Some 101, Some 102, Some 100], ?s1)"
    using conjunct1 [OF conjunct2 [OF GetPooledSFX_round_robin [OF h]]] unfolding three rot
    by simp
  have t3: "GetPooledSFX audio0 = Some (None, audio0)"
    using conjunct1 [OF GetPooledSFX_round_robin [OF h0]] e by simp
  have a: "PoolIndex audio0 = 0" "NextObject audio0 = 100" by (simp_all add: audio0_def)
  have c: "Catalog audio1 =
      Some \<lparr>MusicByTag = [''Music.Combat'' \<mapsto> Some 7], SFXByTag = Map.empty\<rparr>"
    by (simp add: audio1_def)
  have i: "SFXPool ?s2 = [100..<116] \<and> PoolIndex ?s2 = 0"
    unfolding c using Initialize_pool [of audio0] e a by simp
  then have h2: "SFXPool ?s2 = [] \<or> (0 \<le> PoolIndex ?s2 \<and> PoolIndex ?s2 < int (length (SFXPool ?s2)))"
    by simp
  have sixteen: "length (SFXPool ?s2) = 16" using i by simp
  have rot2: "rotate (nat (PoolIndex ?s2)) (SFXPool ?s2) = [100..<116]" using i by simp
  have t4: "GetPooledSFX_times 16 ?s2 = Some (map Some [100..<116], ?s2)"
    using conjunct1 [OF conjunct2 [OF GetPooledSFX_round_robin [OF h2]]] unfolding sixteen rot2 .
  show ?thesis
    unfolding Let_def using t1 t2 t3 e i t4 by simp
qed

lemma EnsureMusicComponents_set:
  "\<exists>a i. ActiveMusic (EnsureMusicComponents s) = Some a \<and>
         InactiveMusic (EnsureMusicComponents s) = Some i"
proof -
  have "InactiveMusic (EnsureMusicComponents s) \<noteq> None"
    by (simp add: EnsureMusicComponents_def NewAudioComponent_def audio_call_def Let_def
        split: option.split)
  moreover have "ActiveMusic (EnsureMusicComponents s) \<noteq> None"
    by (simp add: EnsureMusicComponents_def NewAudioComponent_def audio_call_def Let_def
        split: option.split)
  ultimately show ?thesis by auto
qed

lemma PlayMusicByTag_sets_tag:
  assumes "ResolveMusicByTag s T = Some tr"
  shows "CurrentMusicTag (PlayMusicByTag P T f s) = T"
proof (cases "T = CurrentMusicTag s")
  case True
  then show ?thesis by (simp add: PlayMusicByTag_def)
next
  case False
  obtain a i where ai: "ActiveMusic (EnsureMusicComponents s) = Some a"
    "InactiveMusic (EnsureMusicComponents s) = Some i"
    using EnsureMusicComponents_set by blast
  show ?thesis
    using False assms ai by (simp add: PlayMusicByTag_def Let_def)
qed

lemma PlayMusicByTag_unresolved:
  "ResolveMusicByTag s T = None \<Longrightarrow> PlayMusicByTag P T f s = s"
  by (simp add: PlayMusicByTag_def)

lemma PlayMusicState_sets_state: "CurrentState (PlayMusicState P S f s) = S"
  by (simp add: PlayMusicState_def EnsureMusicComponent_def NewAudioComponent_def audio_call_def
      Let_def split: option.split)

text \<open>
  Claim C7. Switching music to the tag or state that is already current is a no-op:
  \<open>PlayMusicByTag\<close> with the current tag and \<open>PlayMusicState\<close> with the current state return
  the manager unchanged, and a second call with the same tag (or state) right after a first one
  changes nothing more, whatever the engine reports and whatever the fade time.
\<close>

theorem PlayMusic_same_is_noop:
  "(CurrentMusicTag s = T \<longrightarrow> PlayMusicByTag P T f s = s) \<and>
   PlayMusicByTag P' T f' (PlayMusicByTag P T f s) = PlayMusicByTag P T f s \<and>
   (CurrentState s = S \<longrightarrow> PlayMusicState P S f s = s) \<and>
   PlayMusicState P' S f' (PlayMusicState P S f s) = PlayMusicState P S f s"
proof -
  have a: "CurrentMusicTag s = T \<longrightarrow> PlayMusicByTag P T f s = s"
    by (simp add: PlayMusicByTag_def)
  have b: "PlayMusicByTag P' T f' (PlayMusicByTag P T f s) = PlayMusicByTag P T f s"
  proof (cases "ResolveMusicByTag s T")
    case None
    then show ?thesis by (simp add: PlayMusicByTag_unresolved)
  next
    case (Some tr)
    then have "CurrentMusicTag (PlayMusicByTag P T f s) = T"
      by (rule PlayMusicByTag_sets_tag)
    then show ?thesis by (simp add: PlayMusicByTag_def [of P' T f'])
  qed
  have c: "CurrentState s = S \<longrightarrow> PlayMusicState P S f s = s"
    by (simp add: PlayMusicState_def)
  have d: "PlayMusicState P' S f' (PlayMusicState P S f s) = PlayMusicState P S f s"
    using PlayMusicState_sets_state [of P S f s] by (simp add: PlayMusicState_def [of P' S f'])
  from a b c d show ?thesis by blast
qed

theorem PlayMusic_same_is_noop_witness:
  "(let s = PlayMusicByTag (\<lambda>_. False) ''Music.Combat'' 2 audio1
    in CurrentMusicTag s = ''Music.Combat'' \<and>
       PlayMusicByTag (\<lambda>_. True) ''Music.Combat'' 5 s = s \<and>
       CurrentState s = 0 \<and>
       PlayMusicState (\<lambda>_. True) 0 5 s = s)"
proof -
  let ?s = "PlayMusicByTag (\<lambda>_. False) ''Music.Combat'' 2 audio1"
  have r: "ResolveMusicByTag audio1 ''Music.Combat'' = Some 7"
    by (simp add: ResolveMusicByTag_def audio1_def)
  have t: "CurrentMusicTag ?s = ''Music.Combat''"
    using r by (rule PlayMusicByTag_sets_tag)
  have st: "CurrentState ?s = 0"
    using r
    by (simp add: PlayMusicByTag_def EnsureMusicComponents_def NewAudioComponent_def
        audio_call_def audio1_def audio0_def Let_def)
  show ?thesis
    unfolding Let_def
    using PlayMusic_same_is_noop [of ?s "''Music.Combat''" "\<lambda>_. True" 5 "\<lambda>_. True" 5 0] t st
    by blast
qed

section \<open>Properties of the streaming manager\<close>

lemma map_of_put_record:
  "map_of (ChunkRecords (put_record n rc s)) m =
     (if m = n then Some (fst rc) else map_of (ChunkRecords s) m)"
  by (simp add: put_record_def update_conv')

lemma StreamingCalls_put_record:
  "StreamingCalls (put_record n rc s) = StreamingCalls s @ snd rc"
  by (simp add: put_record_def)

lemma GetOrAddRecord_tracked:
  "map_of (ChunkRecords s) n = Some Rec \<Longrightarrow> GetOrAddRecord w n s = (Rec, s)"
  by (simp add: GetOrAddRecord_def Let_def)

lemma GetOrAddRecord_untracked:
  "map_of (ChunkRecords s) n = None \<Longrightarrow>
   GetOrAddRecord w n s =
     (\<lparr>LevelName = n, State = Unloaded, Streaming = FindStreamingLevelByName w n,
       WarmUpSeconds = DefaultWarmUpSeconds w\<rparr>,
      s\<lparr>ChunkRecords := ChunkRecords s @
           [(n, \<lparr>LevelName = n, State = Unloaded, Streaming = FindStreamingLevelByName w n,
                 WarmUpSeconds = DefaultWarmUpSeconds w\<rparr>)]\<rparr>)"
  by (simp add: GetOrAddRecord_def Let_def)

lemma GetOrAddRecord_calls: "StreamingCalls (snd (GetOrAddRecord w n s)) = StreamingCalls s"
  by (simp add: GetOrAddRecord_def Let_def split: option.split)

lemma GetOrAddRecord_streaming:
  "streaming_of w (fst (GetOrAddRecord w n s)) = chunk_streaming w n s"
  by (simp add: GetOrAddRecord_def chunk_streaming_def streaming_of_def Let_def split: option.split)

lemma ApplyUnload_resolved:
  assumes "streaming_of w Rec = Some SL"
  shows "ApplyUnload w Rec =
           (Rec\<lparr>Streaming := Some SL, State := Unloaded, WarmUpSeconds := 0\<rparr>,
            [SetShouldBeVisible SL False, SetShouldBeLoaded SL False])"
  using assms by (auto simp: ApplyUnload_def streaming_of_def Let_def split: option.splits)

text \<open>
  Claim C3. For every unload of a chunk whose streaming object exists, the manager hides the
  level before unloading it: \<open>ApplyUnload\<close>, and \<open>UnloadChunkAsync\<close> for a name that is not
  \<open>None\<close>, issue \<open>SetShouldBeVisible(false)\<close> and then \<open>SetShouldBeLoaded(false)\<close> on that
  streaming object and nothing else, and afterwards the chunk record has state \<open>Unloaded\<close> and
  \<open>WarmUpSeconds\<close> 0.
\<close>

theorem unload_hides_before_unloading:
  "(streaming_of w Rec = Some SL \<longrightarrow>
      ApplyUnload w Rec =
        (Rec\<lparr>Streaming := Some SL, State := Unloaded, WarmUpSeconds := 0\<rparr>,
         [SetShouldBeVisible SL False, SetShouldBeLoaded SL False])) \<and>
   (\<not> IsNone w n \<and> chunk_streaming w n s = Some SL \<longrightarrow>
      StreamingCalls (UnloadChunkAsync w n s) =
        StreamingCalls s @ [SetShouldBeVisible SL False, SetShouldBeLoaded SL False] \<and>
      map_option State (map_of (ChunkRecords (UnloadChunkAsync w n s)) n) = Some Unloaded \<and>
      map_option WarmUpSeconds (map_of (ChunkRecords (UnloadChunkAsync w n s)) n) = Some 0)"
proof (intro conjI impI)
  assume "streaming_of w Rec = Some SL"
  then show "ApplyUnload w Rec =
        (Rec\<lparr>Streaming := Some SL, State := Unloaded, WarmUpSeconds := 0\<rparr>,
         [SetShouldBeVisible SL False, SetShouldBeLoaded SL False])"
    by (rule ApplyUnload_resolved)
next
  assume h: "\<not> IsNone w n \<and> chunk_streaming w n s = Some SL"
  obtain R s1 where g: "GetOrAddRecord w n s = (R, s1)" by (cases "GetOrAddRecord w n s")
  have "streaming_of w R = Some SL"
    using GetOrAddRecord_streaming [of w n s] g h by simp
  then have a: "ApplyUnload w R =
      (R\<lparr>Streaming := Some SL, State := Unloaded, WarmUpSeconds := 0\<rparr>,
       [SetShouldBeVisible SL False, SetShouldBeLoaded SL False])"
    by (rule ApplyUnload_resolved)
  have c: "StreamingCalls s1 = StreamingCalls s"
    using GetOrAddRecord_calls [of w n s] g by simp
  have u: "UnloadChunkAsync w n s = put_record n (ApplyUnload w R) s1"
    using h g by (simp add: UnloadChunkAsync_def)
  show "StreamingCalls (UnloadChunkAsync w n s) =
        StreamingCalls s @ [SetShouldBeVisible SL False, SetShouldBeLoaded SL False]"
    by (simp add: u a c StreamingCalls_put_record)
  show "map_option State (map_of (ChunkRecords (UnloadChunkAsync w n s)) n) = Some Unloaded"
    by (simp add: u a map_of_put_record)
  show "map_option WarmUpSeconds (map_of (ChunkRecords (UnloadChunkAsync w n s)) n) = Some 0"
    by (simp add: u a map_of_put_record)
qed

lemma Find_world0: "FindStreamingLevelByName world0 ''forest'' = Some 1"
  by code_simp

theorem unload_hides_before_unloading_witness:
  "(let Rec = \<lparr>LevelName = ''forest'', State = Visible, Streaming = None, WarmUpSeconds = 3\<rparr>;
        s = LoadChunkAsync world0 ''forest'' True 2 manager0
    in streaming_of world0 Rec = Some 1 \<and>
       ApplyUnload world0 Rec =
         (Rec\<lparr>Streaming := Some 1, State := Unloaded, WarmUpSeconds := 0\<rparr>,
          [SetShouldBeVisible 1 False, SetShouldBeLoaded 1 False]) \<and>
       \<not> IsNone world0 ''forest'' \<and> chunk_streaming world0 ''forest'' s = Some 1 \<and>
       StreamingCalls (UnloadChunkAsync world0 ''forest'' s) =
         [SetShouldBeLoaded 1 True, SetShouldBeVisible 1 False,
          SetShouldBeVisible 1 False, SetShouldBeLoaded 1 False] \<and>
       map_option State (map_of (ChunkRecords (UnloadChunkAsync world0 ''forest'' s)) ''forest'') =
         Some Unloaded)"
proof -
  let ?Rec = "\<lparr>LevelName = ''forest'', State = Visible, Streaming = None, WarmUpSeconds = 3\<rparr>"
  let ?s = "LoadChunkAsync world0 ''forest'' True 2 manager0"
  have nn: "\<not> IsNone world0 ''forest''" by (simp add: world0_def)
  have unl: "\<not> IsLevelLoaded world0 1" by (simp add: world0_def)
  have r: "streaming_of world0 ?Rec = Some 1"
    by (simp add: streaming_of_def Find_world0)
  have s: "?s = \<lparr>ChunkRecords = [(''forest'', \<lparr>LevelName = ''forest'', State = Loading,
                      Streaming = Some 1, WarmUpSeconds = 2\<rparr>)],
                 StreamingCalls = [SetShouldBeLoaded 1 True, SetShouldBeVisible 1 False]\<rparr>"
    using nn unl
    by (simp add: LoadChunkAsync_def GetOrAddRecord_def manager0_def Find_world0 ApplyLoad_def Let_def
        put_record_def)
  have c: "chunk_streaming world0 ''forest'' ?s = Some 1"
    unfolding s by (simp add: chunk_streaming_def streaming_of_def)
  have calls: "StreamingCalls ?s = [SetShouldBeLoaded 1 True, SetShouldBeVisible 1 False]"
    unfolding s by simp
  show ?thesis
    unfolding Let_def
    using unload_hides_before_unloading [of world0 ?Rec 1 "''forest''" ?s] r nn c calls
    by simp
qed

text \<open>
  Claim C4. For a level name with a tracked chunk record, \<open>IsChunkLoaded\<close> is true exactly
  when the record's state is \<open>LoadedHidden\<close> or \<open>Visible\<close>, and \<open>IsChunkVisible\<close> exactly when it
  is \<open>Visible\<close>. For an untracked name both queries ask the engine's streaming level of that
  name, and are false when there is none.
\<close>

theorem chunk_queries:
  "(map_of (ChunkRecords s) n = Some Rec \<longrightarrow>
      (IsChunkLoaded w n s \<longleftrightarrow> State Rec = LoadedHidden \<or> State Rec = Visible) \<and>
      (IsChunkVisible w n s \<longleftrightarrow> State Rec = Visible)) \<and>
   (map_of (ChunkRecords s) n = None \<longrightarrow>
      (IsChunkLoaded w n s \<longleftrightarrow>
         (\<exists>SL. FindStreamingLevelByName w n = Some SL \<and> IsLevelLoaded w SL)) \<and>
      (IsChunkVisible w n s \<longleftrightarrow>
         (\<exists>SL. FindStreamingLevelByName w n = Some SL \<and> IsLevelVisible w SL)) \<and>
      (FindStreamingLevelByName w n = None \<longrightarrow>
         \<not> IsChunkLoaded w n s \<and> \<not> IsChunkVisible w n s))"
  by (auto simp: IsChunkLoaded_def IsChunkVisible_def split: option.splits)


lemma ApplyVisibility_not_loaded:
  assumes "streaming_of w Rec = Some SL" "\<not> IsLevelLoaded w SL"
  shows "ApplyVisibility w Rec bVisible =
           (Rec\<lparr>Streaming := Some SL, State := Loading\<rparr>,
            [SetShouldBeLoaded SL True, SetShouldBeVisible SL False])"
  using assms by (auto simp: ApplyVisibility_def streaming_of_def Let_def split: option.splits)

lemma ApplyVisibility_loaded:
  assumes "streaming_of w Rec = Some SL" "IsLevelLoaded w SL"
  shows "ApplyVisibility w Rec bVisible =
           (Rec\<lparr>Streaming := Some SL, State := (if bVisible then Visible else LoadedHidden),
                 WarmUpSeconds := 0\<rparr>,
            [SetShouldBeVisible SL bVisible])"
  using assms by (auto simp: ApplyVisibility_def streaming_of_def Let_def split: option.splits)

lemma ApplyVisibility_unresolved:
  assumes "streaming_of w Rec = None"
  shows "ApplyVisibility w Rec bVisible = (Rec, [])"
  using assms by (auto simp: ApplyVisibility_def streaming_of_def Let_def split: option.splits)

lemma ApplyLoad_not_loaded:
  assumes "streaming_of w Rec = Some SL" "\<not> IsLevelLoaded w SL"
  shows "ApplyLoad w Rec b WarmUp =
           (Rec\<lparr>Streaming := Some SL,
                 State := (if b \<and> WarmUp \<le> 0 then Visible else Loading),
                 WarmUpSeconds := (if b then max 0 WarmUp else 0)\<rparr>,
            [SetShouldBeLoaded SL True, SetShouldBeVisible SL (b \<and> WarmUp \<le> 0)])"
  using assms by (auto simp: ApplyLoad_def streaming_of_def Let_def split: option.splits)

lemma ApplyVisibility_show_loaded:
  assumes "SetShouldBeVisible SL True \<in> set (snd (ApplyVisibility w Rec bVisible))"
  shows "IsLevelLoaded w SL"
  using assms by (auto simp: ApplyVisibility_def Let_def split: option.splits if_splits)

lemma ApplyLoad_show_loaded:
  assumes "SetShouldBeVisible SL True \<in> set (snd (ApplyLoad w Rec b WarmUp))"
  shows "IsLevelLoaded w SL \<or> (b \<and> WarmUp \<le> 0)"
  using assms by (auto simp: ApplyLoad_def Let_def split: option.splits if_splits)

lemma tick_record_show_loaded:
  assumes "SetShouldBeVisible SL True \<in> set (snd (tick_record w dt Rec))"
  shows "IsLevelLoaded w SL"
proof -
  from assms obtain R where "SetShouldBeVisible SL True \<in> set (snd (ApplyVisibility w R True))"
    by (auto simp: tick_record_def Let_def split: if_splits)
  then show ?thesis by (rule ApplyVisibility_show_loaded)
qed

lemma tick_records_show_loaded:
  assumes "SetShouldBeVisible SL True \<in> set (snd (tick_records w dt rs))"
  shows "IsLevelLoaded w SL"
  using assms
proof (induction rs)
  case Nil
  then show ?case by simp
next
  case (Cons a rs)
  obtain n Rec where a: "a = (n, Rec)" by (cases a)
  from Cons.prems have "SetShouldBeVisible SL True \<in> set (snd (tick_record w dt Rec)) \<or>
      SetShouldBeVisible SL True \<in> set (snd (tick_records w dt rs))"
    by (auto simp: a split: prod.splits)
  then show ?case using Cons.IH tick_record_show_loaded by blast
qed

lemma Tick_calls:
  "StreamingCalls (Tick w dt s) = StreamingCalls s @ snd (tick_records w dt (ChunkRecords s))"
  by (simp add: Tick_def split_beta)

lemma tick_records_map_of:
  "map_of (fst (tick_records w dt rs)) n =
     map_option (\<lambda>r. fst (tick_record w dt r)) (map_of rs n)"
proof (induction rs)
  case Nil
  then show ?case by simp
next
  case (Cons a rs)
  obtain m Rec where a: "a = (m, Rec)" by (cases a)
  show ?case using Cons.IH by (simp add: a split_beta)
qed

lemma Tick_map_of:
  "map_of (ChunkRecords (Tick w dt s)) n =
     map_option (\<lambda>r. fst (tick_record w dt r)) (map_of (ChunkRecords s) n)"
  using tick_records_map_of [of w dt "ChunkRecords s" n]
  by (simp add: Tick_def split_beta)

lemma SetChunkVisible_eq:
  assumes "\<not> IsNone w n"
  shows "SetChunkVisible w n b s =
           put_record n (ApplyVisibility w (fst (GetOrAddRecord w n s)) b) (snd (GetOrAddRecord w n s))"
  using assms by (simp add: SetChunkVisible_def split: prod.splits)

lemma LoadChunkAsync_eq:
  assumes "\<not> IsNone w n"
  shows "LoadChunkAsync w n b WarmUp s =
           put_record n (ApplyLoad w (fst (GetOrAddRecord w n s)) b WarmUp) (snd (GetOrAddRecord w n s))"
  using assms by (simp add: LoadChunkAsync_def split: prod.splits)

text \<open>
  Claim C2. A level is loaded before it is shown. A request to make a chunk visible
  (\<open>SetChunkVisible\<close>, \<open>ApplyVisibility\<close>) whose streaming object exists and does not report
  loaded issues \<open>SetShouldBeLoaded(true)\<close>, then \<open>SetShouldBeVisible(false)\<close>, and records state
  \<open>Loading\<close>. \<open>ApplyVisibility\<close> and \<open>Tick\<close> issue \<open>SetShouldBeVisible(true)\<close> only for a level that
  reports loaded. The exception is a load whose warm-up has already elapsed: \<open>ApplyLoad\<close> asks
  for visibility of a level that is not loaded only when it is to be visible after load with a
  warm-up of zero or less, and then \<open>LoadChunkAsync\<close> issues the load request followed by the
  visibility request.
\<close>

theorem load_before_show:
  "(\<not> IsNone w n \<and> chunk_streaming w n s = Some SL \<and> \<not> IsLevelLoaded w SL \<longrightarrow>
      StreamingCalls (SetChunkVisible w n bVisible s) =
        StreamingCalls s @ [SetShouldBeLoaded SL True, SetShouldBeVisible SL False] \<and>
      map_option State (map_of (ChunkRecords (SetChunkVisible w n bVisible s)) n) = Some Loading) \<and>
   (streaming_of w Rec = Some SL \<and> \<not> IsLevelLoaded w SL \<longrightarrow>
      ApplyVisibility w Rec bVisible =
        (Rec\<lparr>Streaming := Some SL, State := Loading\<rparr>,
         [SetShouldBeLoaded SL True, SetShouldBeVisible SL False])) \<and>
   (SetShouldBeVisible SL' True \<in> set (snd (ApplyVisibility w Rec bVisible)) \<longrightarrow>
      IsLevelLoaded w SL') \<and>
   (SetShouldBeVisible SL' True \<in> set (drop (length (StreamingCalls s)) (StreamingCalls (Tick w dt s))) \<longrightarrow>
      IsLevelLoaded w SL') \<and>
   (SetShouldBeVisible SL' True \<in> set (snd (ApplyLoad w Rec bMakeVisibleAfterLoad WarmUp)) \<longrightarrow>
      IsLevelLoaded w SL' \<or> (bMakeVisibleAfterLoad \<and> WarmUp \<le> 0)) \<and>
   (\<not> IsNone w n \<and> chunk_streaming w n s = Some SL \<and> \<not> IsLevelLoaded w SL \<longrightarrow>
      StreamingCalls (LoadChunkAsync w n bMakeVisibleAfterLoad WarmUp s) =
        StreamingCalls s @
          [SetShouldBeLoaded SL True, SetShouldBeVisible SL (bMakeVisibleAfterLoad \<and> WarmUp \<le> 0)] \<and>
      map_option State (map_of (ChunkRecords (LoadChunkAsync w n bMakeVisibleAfterLoad WarmUp s)) n) =
        Some (if bMakeVisibleAfterLoad \<and> WarmUp \<le> 0 then Visible else Loading))"
proof -
  let ?R = "fst (GetOrAddRecord w n s)" and ?s1 = "snd (GetOrAddRecord w n s)"
  have R: "streaming_of w ?R = chunk_streaming w n s" by (rule GetOrAddRecord_streaming)
  have c: "StreamingCalls ?s1 = StreamingCalls s" by (rule GetOrAddRecord_calls)
  have 1: "\<not> IsNone w n \<and> chunk_streaming w n s = Some SL \<and> \<not> IsLevelLoaded w SL \<longrightarrow>
      StreamingCalls (SetChunkVisible w n bVisible s) =
        StreamingCalls s @ [SetShouldBeLoaded SL True, SetShouldBeVisible SL False] \<and>
      map_option State (map_of (ChunkRecords (SetChunkVisible w n bVisible s)) n) = Some Loading"
  proof
    assume h: "\<not> IsNone w n \<and> chunk_streaming w n s = Some SL \<and> \<not> IsLevelLoaded w SL"
    then have a: "ApplyVisibility w ?R bVisible =
        (?R\<lparr>Streaming := Some SL, State := Loading\<rparr>,
         [SetShouldBeLoaded SL True, SetShouldBeVisible SL False])"
      using R ApplyVisibility_not_loaded [of w ?R SL bVisible] by simp
    show "StreamingCalls (SetChunkVisible w n bVisible s) =
        StreamingCalls s @ [SetShouldBeLoaded SL True, SetShouldBeVisible SL False] \<and>
      map_option State (map_of (ChunkRecords (SetChunkVisible w n bVisible s)) n) = Some Loading"
      using h by (simp add: SetChunkVisible_eq a c StreamingCalls_put_record map_of_put_record)
  qed
  have 2: "streaming_of w Rec = Some SL \<and> \<not> IsLevelLoaded w SL \<longrightarrow>
      ApplyVisibility w Rec bVisible =
        (Rec\<lparr>Streaming := Some SL, State := Loading\<rparr>,
         [SetShouldBeLoaded SL True, SetShouldBeVisible SL False])"
    using ApplyVisibility_not_loaded by blast
  have 3: "SetShouldBeVisible SL' True \<in> set (snd (ApplyVisibility w Rec bVisible)) \<longrightarrow>
      IsLevelLoaded w SL'"
    using ApplyVisibility_show_loaded by blast
  have 4: "SetShouldBeVisible SL' True \<in> set (drop (length (StreamingCalls s)) (StreamingCalls (Tick w dt s))) \<longrightarrow>
      IsLevelLoaded w SL'"
    using tick_records_show_loaded [of SL' w dt "ChunkRecords s"] by (simp add: Tick_calls)
  have 5: "SetShouldBeVisible SL' True \<in> set (snd (ApplyLoad w Rec bMakeVisibleAfterLoad WarmUp)) \<longrightarrow>
      IsLevelLoaded w SL' \<or> (bMakeVisibleAfterLoad \<and> WarmUp \<le> 0)"
    using ApplyLoad_show_loaded by blast
  have 6: "\<not> IsNone w n \<and> chunk_streaming w n s = Some SL \<and> \<not> IsLevelLoaded w SL \<longrightarrow>
      StreamingCalls (LoadChunkAsync w n bMakeVisibleAfterLoad WarmUp s) =
        StreamingCalls s @
          [SetShouldBeLoaded SL True, SetShouldBeVisible SL (bMakeVisibleAfterLoad \<and> WarmUp \<le> 0)] \<and>
      map_option State (map_of (ChunkRecords (LoadChunkAsync w n bMakeVisibleAfterLoad WarmUp s)) n) =
        Some (if bMakeVisibleAfterLoad \<and> WarmUp \<le> 0 then Visible else Loading)"
  proof
    assume h: "\<not> IsNone w n \<and> chunk_streaming w n s = Some SL \<and> \<not> IsLevelLoaded w SL"
    then have a: "ApplyLoad w ?R bMakeVisibleAfterLoad WarmUp =
           (?R\<lparr>Streaming := Some SL,
                 State := (if bMakeVisibleAfterLoad \<and> WarmUp \<le> 0 then Visible else Loading),
                 WarmUpSeconds := (if bMakeVisibleAfterLoad then max 0 WarmUp else 0)\<rparr>,
            [SetShouldBeLoaded SL True, SetShouldBeVisible SL (bMakeVisibleAfterLoad \<and> WarmUp \<le> 0)])"
      using R ApplyLoad_not_loaded [of w ?R SL bMakeVisibleAfterLoad WarmUp] by simp
    show "StreamingCalls (LoadChunkAsync w n bMakeVisibleAfterLoad WarmUp s) =
        StreamingCalls s @
          [SetShouldBeLoaded SL True, SetShouldBeVisible SL (bMakeVisibleAfterLoad \<and> WarmUp \<le> 0)] \<and>
      map_option State (map_of (ChunkRecords (LoadChunkAsync w n bMakeVisibleAfterLoad WarmUp s)) n) =
        Some (if bMakeVisibleAfterLoad \<and> WarmUp \<le> 0 then Visible else Loading)"
      using h by (simp add: LoadChunkAsync_eq a c StreamingCalls_put_record map_of_put_record)
  qed
  from 1 2 3 4 5 6 show ?thesis by blast
qed


lemma tick_record_not_ready:
  assumes "\<not> level_ready w Rec"
  shows "tick_record w dt Rec = (Rec, [])"
  using assms by (auto simp: tick_record_def level_ready_def Let_def split: option.splits)

lemma tick_record_expired:
  assumes "level_ready w Rec" "warm_up_expires dt Rec"
  shows "tick_record w dt Rec =
           ApplyVisibility w (Rec\<lparr>State := LoadedHidden, WarmUpSeconds := WarmUpSeconds Rec - dt\<rparr>) True"
proof (cases "State Rec = LoadedHidden")
  case True
  then have "Rec\<lparr>State := LoadedHidden\<rparr> = Rec"
    using True [symmetric] by simp
  then have eq: "Rec\<lparr>State := LoadedHidden, WarmUpSeconds := WarmUpSeconds Rec - dt\<rparr> =
      Rec\<lparr>WarmUpSeconds := WarmUpSeconds Rec - dt\<rparr>" by simp
  show ?thesis
    unfolding eq using assms True by (simp add: tick_record_def warm_up_expires_def Let_def)
next
  case False
  then show ?thesis
    using assms
    by (auto simp: tick_record_def level_ready_def warm_up_expires_def Let_def split: option.splits)
qed

lemma tick_record_counting_eq:
  assumes "level_ready w Rec" "\<not> warm_up_expires dt Rec"
  shows "tick_record w dt Rec =
           (Rec\<lparr>State := LoadedHidden,
                 WarmUpSeconds := (if WarmUpSeconds Rec > 0 then WarmUpSeconds Rec - dt
                                   else WarmUpSeconds Rec)\<rparr>, [])"
proof (cases "State Rec = LoadedHidden")
  case True
  then have eq: "Rec\<lparr>State := LoadedHidden\<rparr> = Rec"
    using True [symmetric] by simp
  have "tick_record w dt Rec =
      (Rec\<lparr>WarmUpSeconds := (if WarmUpSeconds Rec > 0 then WarmUpSeconds Rec - dt
                                else WarmUpSeconds Rec)\<rparr>, [])"
    using assms True by (simp add: tick_record_def warm_up_expires_def Let_def)
  also have "Rec\<lparr>WarmUpSeconds := (if WarmUpSeconds Rec > 0 then WarmUpSeconds Rec - dt
                                else WarmUpSeconds Rec)\<rparr> =
      (Rec\<lparr>State := LoadedHidden\<rparr>)\<lparr>WarmUpSeconds := (if WarmUpSeconds Rec > 0 then WarmUpSeconds Rec - dt
                                else WarmUpSeconds Rec)\<rparr>"
    by (simp only: eq)
  finally show ?thesis by simp
next
  case False
  then show ?thesis
    using assms
    by (auto simp: tick_record_def level_ready_def warm_up_expires_def Let_def split: option.splits)
qed

lemma tick_record_expired_eq:
  assumes "level_ready w Rec" "warm_up_expires dt Rec"
  shows "tick_record w dt Rec =
           (case streaming_of w Rec of
              None \<Rightarrow>
                (Rec\<lparr>State := LoadedHidden, WarmUpSeconds := WarmUpSeconds Rec - dt\<rparr>, [])
            | Some SL \<Rightarrow>
                if IsLevelLoaded w SL
                then (Rec\<lparr>Streaming := Some SL, State := Visible, WarmUpSeconds := 0\<rparr>,
                      [SetShouldBeVisible SL True])
                else (Rec\<lparr>Streaming := Some SL, State := Loading,
                           WarmUpSeconds := WarmUpSeconds Rec - dt\<rparr>,
                      [SetShouldBeLoaded SL True, SetShouldBeVisible SL False]))"
proof -
  let ?R = "Rec\<lparr>State := LoadedHidden, WarmUpSeconds := WarmUpSeconds Rec - dt\<rparr>"
  have t: "tick_record w dt Rec = ApplyVisibility w ?R True"
    using assms by (rule tick_record_expired)
  have so: "streaming_of w ?R = streaming_of w Rec"
    by (simp add: streaming_of_def split: option.split)
  show ?thesis
  proof (cases "streaming_of w Rec")
    case None
    then show ?thesis
      using ApplyVisibility_unresolved [of w ?R True] so by (simp add: t)
  next
    case (Some SL)
    show ?thesis
    proof (cases "IsLevelLoaded w SL")
      case True
      then show ?thesis
        using ApplyVisibility_loaded [of w ?R SL True] so Some by (simp add: t)
    next
      case False
      then show ?thesis
        using ApplyVisibility_not_loaded [of w ?R SL True] so Some by (simp add: t)
    qed
  qed
qed

lemma ApplyLoad_resolved:
  assumes "streaming_of w Rec = Some SL"
  shows "ApplyLoad w Rec b WarmUp =
           (Rec\<lparr>Streaming := Some SL,
                 State := (if b \<and> WarmUp \<le> 0 then Visible
                           else if IsLevelLoaded w SL then LoadedHidden else Loading),
                 WarmUpSeconds := (if IsLevelLoaded w SL
                                   then (if b \<and> WarmUp > 0 then WarmUp else 0)
                                   else (if b then max 0 WarmUp else 0))\<rparr>,
            (if IsLevelLoaded w SL then [] else [SetShouldBeLoaded SL True]) @
              [SetShouldBeVisible SL (b \<and> WarmUp \<le> 0)])"
  using assms by (auto simp: ApplyLoad_def streaming_of_def Let_def split: option.splits)

lemma tick_records_eq:
  "tick_records w dt rs =
     (map (\<lambda>(n, r). (n, fst (tick_record w dt r))) rs,
      concat (map (\<lambda>(n, r). snd (tick_record w dt r)) rs))"
  by (induction rs) (auto simp: split_beta)

lemma Tick_eq:
  "ChunkRecords (Tick w dt s) = map (\<lambda>(n, r). (n, fst (tick_record w dt r))) (ChunkRecords s) \<and>
   StreamingCalls (Tick w dt s) =
     StreamingCalls s @ concat (map (\<lambda>(n, r). snd (tick_record w dt r)) (ChunkRecords s))"
  by (simp add: Tick_def tick_records_eq)

text \<open>
  Claim C1, as amended. Every chunk record has a state in
  \<open>{Unloaded, Loading, LoadedHidden, Visible}\<close>. A load request for a record whose streaming
  level exists puts it in \<open>Visible\<close> when the level is to be visible after load with a warm-up of
  zero or less, and otherwise in \<open>LoadedHidden\<close> when the level reports loaded and in \<open>Loading\<close>
  when it does not, with the warm-up timer and the requests as \<open>ApplyLoad\<close> sets them.
  \<open>Tick\<close> applies the same step to every tracked record, in the order of the map, keeps the
  names, and appends the requests of the steps. The step leaves a record that is not ready
  (not in \<open>LoadedHidden\<close>, and not in \<open>Loading\<close> with a level that reports loaded) as it is and
  makes no request. For a ready record whose warm-up does not expire in this frame it sets the
  state to \<open>LoadedHidden\<close>, takes the frame delta off a positive timer, and makes no request.
  For a ready record whose warm-up timer, decremented by the frame delta, reaches zero or
  below: when its level reports loaded, the record moves to \<open>Visible\<close>, the timer is cleared and
  \<open>SetShouldBeVisible(true)\<close> is requested; when its level does not report loaded, the record
  goes back to \<open>Loading\<close>, keeps the decremented timer, and \<open>SetShouldBeLoaded(true)\<close> then
  \<open>SetShouldBeVisible(false)\<close> are requested; when it has no streaming level, it stays in
  \<open>LoadedHidden\<close> with the decremented timer and no request is made.
\<close>

theorem Tick_transitions:
  "ChunkRecords (Tick w dt s) = map (\<lambda>(n, r). (n, fst (tick_record w dt r))) (ChunkRecords s) \<and>
   StreamingCalls (Tick w dt s) =
     StreamingCalls s @ concat (map (\<lambda>(n, r). snd (tick_record w dt r)) (ChunkRecords s)) \<and>
   map_of (ChunkRecords (Tick w dt s)) n =
     map_option (\<lambda>r. fst (tick_record w dt r)) (map_of (ChunkRecords s) n) \<and>
   State Rec \<in> {Unloaded, Loading, LoadedHidden, Visible} \<and>
   (streaming_of w Rec = Some SL \<longrightarrow>
      ApplyLoad w Rec bMakeVisibleAfterLoad WarmUp =
        (Rec\<lparr>Streaming := Some SL,
              State := (if bMakeVisibleAfterLoad \<and> WarmUp \<le> 0 then Visible
                        else if IsLevelLoaded w SL then LoadedHidden else Loading),
              WarmUpSeconds := (if IsLevelLoaded w SL
                                then (if bMakeVisibleAfterLoad \<and> WarmUp > 0 then WarmUp else 0)
                                else (if bMakeVisibleAfterLoad then max 0 WarmUp else 0))\<rparr>,
         (if IsLevelLoaded w SL then [] else [SetShouldBeLoaded SL True]) @
           [SetShouldBeVisible SL (bMakeVisibleAfterLoad \<and> WarmUp \<le> 0)])) \<and>
   (\<not> level_ready w Rec \<longrightarrow> tick_record w dt Rec = (Rec, [])) \<and>
   (level_ready w Rec \<and> \<not> warm_up_expires dt Rec \<longrightarrow>
      tick_record w dt Rec =
        (Rec\<lparr>State := LoadedHidden,
              WarmUpSeconds := (if WarmUpSeconds Rec > 0 then WarmUpSeconds Rec - dt
                                else WarmUpSeconds Rec)\<rparr>, [])) \<and>
   (level_ready w Rec \<and> warm_up_expires dt Rec \<longrightarrow>
      tick_record w dt Rec =
        (case streaming_of w Rec of
           None \<Rightarrow>
             (Rec\<lparr>State := LoadedHidden, WarmUpSeconds := WarmUpSeconds Rec - dt\<rparr>, [])
         | Some L \<Rightarrow>
             if IsLevelLoaded w L
             then (Rec\<lparr>Streaming := Some L, State := Visible, WarmUpSeconds := 0\<rparr>,
                   [SetShouldBeVisible L True])
             else (Rec\<lparr>Streaming := Some L, State := Loading,
                        WarmUpSeconds := WarmUpSeconds Rec - dt\<rparr>,
                   [SetShouldBeLoaded L True, SetShouldBeVisible L False])))"
proof -
  have st: "State Rec \<in> {Unloaded, Loading, LoadedHidden, Visible}"
    by (cases "State Rec") simp_all
  note a = Tick_eq [of w dt s]
  note b = Tick_map_of [of w dt s n]
  note c = ApplyLoad_resolved [of w Rec SL bMakeVisibleAfterLoad WarmUp]
  note d = tick_record_not_ready [of w Rec dt]
  note e = tick_record_counting_eq [of w Rec dt]
  note f = tick_record_expired_eq [of w Rec dt]
  show ?thesis
    apply (intro conjI impI)
           apply (rule conjunct1 [OF a])
          apply (rule conjunct2 [OF a])
         apply (rule b)
        apply (rule st)
       apply (erule c)
      apply (erule d)
     apply (rule e; simp)
    apply (rule f; simp)
    done
qed


lemma loaded_hidden_example:
  "LoadChunkAsync world1 ''Forest'' True 1 manager0 =
     \<lparr>ChunkRecords = [(''Forest'', \<lparr>LevelName = ''Forest'', State = LoadedHidden,
                         Streaming = Some 1, WarmUpSeconds = 1\<rparr>)],
      StreamingCalls = [SetShouldBeVisible 1 False]\<rparr>"
proof -
  have f: "FindStreamingLevelByName world1 ''Forest'' = Some 1" by code_simp
  have w: "\<not> IsNone world1 ''Forest''" "\<And>x. IsLevelLoaded world1 x"
    "DefaultWarmUpSeconds world1 = 0"
    by (simp_all add: world1_def world0_def)
  show ?thesis
    by (simp add: LoadChunkAsync_def GetOrAddRecord_def manager0_def f w ApplyLoad_def
        put_record_def Let_def)
qed

text \<open>
  Claim C1 as stated fails. A chunk loaded hidden with a warm-up of one second, whose level
  stops reporting loaded, is in \<open>LoadedHidden\<close> when a frame of two seconds takes its timer below
  zero; \<open>Tick\<close> moves it to \<open>Loading\<close>, not to \<open>Visible\<close>, and asks for the level to be loaded.
\<close>

theorem Tick_hidden_level_returns_to_Loading:
  "State (snd (hd (ChunkRecords (LoadChunkAsync world1 ''Forest'' True 1 manager0)))) = LoadedHidden \<and>
   WarmUpSeconds (snd (hd (ChunkRecords (LoadChunkAsync world1 ''Forest'' True 1 manager0)))) - 2 \<le> 0 \<and>
   Tick world0 2 (LoadChunkAsync world1 ''Forest'' True 1 manager0) =
     \<lparr>ChunkRecords = [(''Forest'', \<lparr>LevelName = ''Forest'', State = Loading,
                         Streaming = Some 1, WarmUpSeconds = - 1\<rparr>)],
      StreamingCalls = [SetShouldBeVisible 1 False,
                        SetShouldBeLoaded 1 True, SetShouldBeVisible 1 False]\<rparr>"
  unfolding loaded_hidden_example
  by (simp add: Tick_def tick_record_def ApplyVisibility_def Let_def world0_def)

theorem Tick_transitions_witness:
  "(let Rec = \<lparr>LevelName = ''Forest'', State = Loading, Streaming = Some 1, WarmUpSeconds = 1\<rparr>;
        Hidden = \<lparr>LevelName = ''Forest'', State = LoadedHidden, Streaming = Some 1, WarmUpSeconds = 1\<rparr>;
        Shown = \<lparr>LevelName = ''Forest'', State = Visible, Streaming = Some 1, WarmUpSeconds = 0\<rparr>
    in level_ready world1 Rec \<and> warm_up_expires 2 Rec \<and> \<not> warm_up_expires (1/2) Rec \<and>
       tick_record world1 2 Rec =
         (Rec\<lparr>State := Visible, WarmUpSeconds := 0\<rparr>, [SetShouldBeVisible 1 True]) \<and>
       tick_record world1 (1/2) Rec =
         (Rec\<lparr>State := LoadedHidden, WarmUpSeconds := 1/2\<rparr>, []) \<and>
       level_ready world0 Hidden \<and> warm_up_expires 2 Hidden \<and>
       tick_record world0 2 Hidden =
         (Hidden\<lparr>State := Loading, WarmUpSeconds := - 1\<rparr>,
          [SetShouldBeLoaded 1 True, SetShouldBeVisible 1 False]) \<and>
       \<not> level_ready world1 Shown \<and> tick_record world1 2 Shown = (Shown, []) \<and>
       streaming_of world0 Rec = Some 1 \<and>
       ApplyLoad world0 Rec True 3 =
         (Rec\<lparr>WarmUpSeconds := 3\<rparr>, [SetShouldBeLoaded 1 True, SetShouldBeVisible 1 False]))"
proof -
  let ?Rec = "\<lparr>LevelName = ''Forest'', State = Loading, Streaming = Some 1, WarmUpSeconds = 1\<rparr>"
  let ?Hidden = "\<lparr>LevelName = ''Forest'', State = LoadedHidden, Streaming = Some 1, WarmUpSeconds = 1\<rparr>"
  let ?Shown = "\<lparr>LevelName = ''Forest'', State = Visible, Streaming = Some 1, WarmUpSeconds = 0\<rparr>"
  have w1: "\<And>x. IsLevelLoaded world1 x" by (simp add: world1_def)
  have w0: "\<And>x. \<not> IsLevelLoaded world0 x" by (simp add: world0_def)
  have r: "level_ready world1 ?Rec" by (simp add: level_ready_def w1)
  have x: "warm_up_expires 2 ?Rec" by (simp add: warm_up_expires_def)
  have nx: "\<not> warm_up_expires (1/2) ?Rec" by (simp add: warm_up_expires_def)
  have hr: "level_ready world0 ?Hidden" by (simp add: level_ready_def)
  have hx: "warm_up_expires 2 ?Hidden" by (simp add: warm_up_expires_def)
  have nr: "\<not> level_ready world1 ?Shown" by (simp add: level_ready_def)
  have so: "\<And>w. streaming_of w ?Rec = Some 1" "\<And>w. streaming_of w ?Hidden = Some 1"
    by (simp_all add: streaming_of_def)
  note A = Tick_transitions [of world1 2 manager0 "''Forest''" ?Rec 1 True 3]
  note B = Tick_transitions [of world1 "1/2" manager0 "''Forest''" ?Rec 1 True 3]
  note C = Tick_transitions [of world0 2 manager0 "''Forest''" ?Hidden 1 True 3]
  note D = Tick_transitions [of world1 2 manager0 "''Forest''" ?Shown 1 True 3]
  note E = Tick_transitions [of world0 2 manager0 "''Forest''" ?Rec 1 True 3]
  have t1: "tick_record world1 2 ?Rec =
      (?Rec\<lparr>State := Visible, WarmUpSeconds := 0\<rparr>, [SetShouldBeVisible 1 True])"
    using A r x so w1 by simp
  have t2: "tick_record world1 (1/2) ?Rec = (?Rec\<lparr>State := LoadedHidden, WarmUpSeconds := 1/2\<rparr>, [])"
    using B r nx by simp
  have t3: "tick_record world0 2 ?Hidden =
      (?Hidden\<lparr>State := Loading, WarmUpSeconds := - 1\<rparr>,
       [SetShouldBeLoaded 1 True, SetShouldBeVisible 1 False])"
    using C hr hx so w0 by simp
  have t4: "tick_record world1 2 ?Shown = (?Shown, [])"
    using D nr by simp
  have t5: "ApplyLoad world0 ?Rec True 3 =
      (?Rec\<lparr>WarmUpSeconds := 3\<rparr>, [SetShouldBeLoaded 1 True, SetShouldBeVisible 1 False])"
    using E so w0 by simp
  show ?thesis
    unfolding Let_def using r x nx hr hx nr so t1 t2 t3 t4 t5 by simp
qed

theorem load_before_show_witness:
  "\<not> IsNone world0 ''forest'' \<and> chunk_streaming world0 ''forest'' manager0 = Some 1 \<and>
   \<not> IsLevelLoaded world0 1 \<and>
   StreamingCalls (SetChunkVisible world0 ''forest'' True manager0) =
     [SetShouldBeLoaded 1 True, SetShouldBeVisible 1 False] \<and>
   map_option State (map_of (ChunkRecords (SetChunkVisible world0 ''forest'' True manager0)) ''forest'') =
     Some Loading \<and>
   StreamingCalls (LoadChunkAsync world0 ''forest'' True 0 manager0) =
     [SetShouldBeLoaded 1 True, SetShouldBeVisible 1 True] \<and>
   StreamingCalls (LoadChunkAsync world0 ''forest'' True 3 manager0) =
     [SetShouldBeLoaded 1 True, SetShouldBeVisible 1 False] \<and>
   SetShouldBeVisible 1 True \<in>
     set (snd (ApplyVisibility world1
       \<lparr>LevelName = ''forest'', State = LoadedHidden, Streaming = Some 1, WarmUpSeconds = 0\<rparr> True)) \<and>
   IsLevelLoaded world1 1"
proof -
  let ?R = "\<lparr>LevelName = ''forest'', State = LoadedHidden, Streaming = Some 1, WarmUpSeconds = 0\<rparr>"
  have nn: "\<not> IsNone world0 ''forest''" by (simp add: world0_def)
  have c: "chunk_streaming world0 ''forest'' manager0 = Some 1"
    by (simp add: chunk_streaming_def manager0_def Find_world0)
  have u: "\<not> IsLevelLoaded world0 1" by (simp add: world0_def)
  have e: "StreamingCalls manager0 = []" by (simp add: manager0_def)
  have v: "SetShouldBeVisible 1 True \<in> set (snd (ApplyVisibility world1 ?R True))"
    by (simp add: ApplyVisibility_def world1_def)
  show ?thesis
    using load_before_show [of world0 "''forest''" manager0 1 True ?R 1 2 True 0]
      load_before_show [of world0 "''forest''" manager0 1 True ?R 1 2 True 3]
      load_before_show [of world1 "''forest''" manager0 1 True ?R 1 2 True 3]
      nn c u e v
    by simp
qed

theorem chunk_queries_witness:
  "(let s = LoadChunkAsync world1 ''Forest'' True 1 manager0;
        Rec = \<lparr>LevelName = ''Forest'', State = LoadedHidden, Streaming = Some 1, WarmUpSeconds = 1\<rparr>
    in map_of (ChunkRecords s) ''Forest'' = Some Rec \<and>
       IsChunkLoaded world0 ''Forest'' s \<and> \<not> IsChunkVisible world0 ''Forest'' s \<and>
       map_of (ChunkRecords manager0) ''Forest'' = None \<and>
       IsChunkLoaded world1 ''Forest'' manager0 \<and>
       FindStreamingLevelByName world1 ''Cave'' = None \<and>
       \<not> IsChunkLoaded world1 ''Cave'' manager0 \<and> \<not> IsChunkVisible world1 ''Cave'' manager0)"
proof -
  let ?s = "LoadChunkAsync world1 ''Forest'' True 1 manager0"
  let ?Rec = "\<lparr>LevelName = ''Forest'', State = LoadedHidden, Streaming = Some 1, WarmUpSeconds = 1::real\<rparr>"
  have t: "map_of (ChunkRecords ?s) ''Forest'' = Some ?Rec"
    unfolding loaded_hidden_example by simp
  have u: "map_of (ChunkRecords manager0) ''Forest'' = None"
    "map_of (ChunkRecords manager0) ''Cave'' = None" by (simp_all add: manager0_def)
  have f: "FindStreamingLevelByName world1 ''Forest'' = Some 1" by code_simp
  have g: "FindStreamingLevelByName world1 ''Cave'' = None" by code_simp
  have l: "IsLevelLoaded world1 1" by (simp add: world1_def)
  show ?thesis
    unfolding Let_def
    using chunk_queries [of ?s "''Forest''" ?Rec world0]
      chunk_queries [of manager0 "''Forest''" ?Rec world1]
      chunk_queries [of manager0 "''Cave''" ?Rec world1] t u f g l
    by simp
qed

section \<open>Properties of the UI manager\<close>

lemma Clamp_unit: "Clamp X 0 1 = max 0 (min 1 X)"
  by (simp add: Clamp_def max_def min_def)

lemma OnChannelTick_UI_sends:
  "OnChannelTick_UI e P0 E T s =
     HUD_SendEvent e ''UI.HUD.Channel.Progress''
       (P0\<lparr>Progress01 := (if T > 0 then max 0 (min 1 (E / T)) else 0)\<rparr>) s"
  by (simp add: OnChannelTick_UI_def Let_def Clamp_unit)

lemma HUD_SendEvent_calls:
  "UICalls (HUD_SendEvent e tag P s) =
     UICalls s @
       (case HUDRoot s of
          None \<Rightarrow> []
        | Some H \<Rightarrow> if WidgetValid e H \<and> HasApplyUIEvent e H then [ApplyUIEvent H tag P] else [])"
  by (simp add: HUD_SendEvent_def ui_call_def split: option.split)

text \<open>
  Claim C8. For a channel tick with elapsed time \<open>E\<close> and total time \<open>T\<close>, every event the
  handler sends to the HUD is a \<open>UI.HUD.Channel.Progress\<close> event whose progress value is \<open>E / T\<close>
  clamped to the interval from 0 to 1 when \<open>T > 0\<close>, and 0 when \<open>T \<le> 0\<close>; when the HUD root is
  valid and has the event function, exactly that one event is sent.
\<close>

theorem channel_progress_clamped:
  "(HUDRoot s = Some H \<and> WidgetValid e H \<and> HasApplyUIEvent e H \<longrightarrow>
      UICalls (OnChannelTick_UI e P0 E T s) =
        UICalls s @
          [ApplyUIEvent H ''UI.HUD.Channel.Progress''
             (P0\<lparr>Progress01 := (if T > 0 then max 0 (min 1 (E / T)) else 0)\<rparr>)]) \<and>
   (\<forall>c \<in> set (drop (length (UICalls s)) (UICalls (OnChannelTick_UI e P0 E T s))).
      \<exists>H' P. c = ApplyUIEvent H' ''UI.HUD.Channel.Progress'' P \<and>
        0 \<le> Progress01 P \<and> Progress01 P \<le> 1 \<and>
        (T > 0 \<longrightarrow> Progress01 P = max 0 (min 1 (E / T))) \<and>
        (T \<le> 0 \<longrightarrow> Progress01 P = 0))"
  by (auto simp: OnChannelTick_UI_sends HUD_SendEvent_calls split: option.splits)

theorem channel_progress_clamped_witness:
  "HUDRoot uiS = Some 5 \<and> WidgetValid ui_engine1 5 \<and> HasApplyUIEvent ui_engine1 5 \<and>
   UICalls (OnChannelTick_UI ui_engine1 payload0 3 4 uiS) =
     [ApplyUIEvent 5 ''UI.HUD.Channel.Progress'' (payload0\<lparr>Progress01 := 3 / 4\<rparr>)] \<and>
   UICalls (OnChannelTick_UI ui_engine1 payload0 9 4 uiS) =
     [ApplyUIEvent 5 ''UI.HUD.Channel.Progress'' (payload0\<lparr>Progress01 := 1\<rparr>)] \<and>
   UICalls (OnChannelTick_UI ui_engine1 payload0 3 0 uiS) =
     [ApplyUIEvent 5 ''UI.HUD.Channel.Progress'' (payload0\<lparr>Progress01 := 0\<rparr>)]"
proof -
  have h: "HUDRoot uiS = Some 5" "WidgetValid ui_engine1 5" "HasApplyUIEvent ui_engine1 5"
    "UICalls uiS = []"
    by (simp_all add: uiS_def ui_engine1_def)
  show ?thesis
    using conjunct1 [OF channel_progress_clamped [of uiS 5 ui_engine1 payload0 3 4]]
      conjunct1 [OF channel_progress_clamped [of uiS 5 ui_engine1 payload0 9 4]]
      conjunct1 [OF channel_progress_clamped [of uiS 5 ui_engine1 payload0 3 0]] h
    by simp
qed

lemma scan_pool_snoc:
  "scan_pool valid (Suc (length xs)) (xs @ [x]) =
     (if valid x then (Some x, xs) else scan_pool valid (length xs) xs)"
  by (simp add: RemoveAt_def nth_append)

lemma scan_pool_found:
  assumes "valid P" "\<forall>d \<in> set dead. \<not> valid d"
  shows "scan_pool valid (length (pre @ P # dead)) (pre @ P # dead) = (Some P, pre)"
  using assms(2)
proof (induction dead rule: rev_induct)
  case Nil
  show ?case using scan_pool_snoc [of valid pre P] assms(1) by simp
next
  case (snoc d ds)
  have "scan_pool valid (Suc (length (pre @ P # ds))) ((pre @ P # ds) @ [d]) =
      scan_pool valid (length (pre @ P # ds)) (pre @ P # ds)"
    using snoc.prems by (simp only: scan_pool_snoc) simp
  then show ?case using snoc by simp
qed

lemma scan_pool_none:
  assumes "\<forall>p \<in> set xs. \<not> valid p"
  shows "scan_pool valid (length xs) xs = (None, [])"
  using assms
proof (induction xs rule: rev_induct)
  case Nil
  show ?case by simp
next
  case (snoc x xs)
  then show ?case using scan_pool_snoc [of valid xs x] by simp
qed

lemma pool_cases:
  "(\<exists>pre P dead. xs = pre @ P # dead \<and> valid P \<and> (\<forall>d \<in> set dead. \<not> valid d)) \<or>
   (\<forall>p \<in> set xs. \<not> valid p)"
  using split_list_last_prop [of xs valid] by blast

lemma pool_of_Pooled_upd:
  "pool_of (s\<lparr>Pooled := (Pooled s)(Overlay \<mapsto> xs)\<rparr>) Other =
     (if Other = Overlay then xs else pool_of s Other)"
  by (simp add: pool_of_def)

lemma ui_inv_shrink:
  assumes "ui_inv s" "set pre \<subseteq> set (pool_of s Overlay)" "distinct pre"
  shows "ui_inv (s\<lparr>Pooled := (Pooled s)(Overlay \<mapsto> pre)\<rparr>)"
  using assms unfolding ui_inv_def never_both_def pool_of_Pooled_upd
  by (simp split: if_splits) blast


lemma pool_of_Live_upd [simp]:
  "pool_of (s\<lparr>LiveWidgets := L\<rparr>) Other = pool_of s Other"
  by (simp add: pool_of_def)

lemma pool_of_Next_upd [simp]:
  "pool_of (s\<lparr>NextWidget := k\<rparr>) Other = pool_of s Other"
  by (simp add: pool_of_def)

lemma pool_of_ui_call [simp]: "pool_of (ui_call c s) Other = pool_of s Other"
  by (simp add: pool_of_def ui_call_def)

lemma ui_inv_reuse:
  assumes inv: "ui_inv s" and pool: "pool_of s Overlay = pre @ P # dead"
  shows "ui_inv (s\<lparr>Pooled := (Pooled s)(Overlay \<mapsto> pre),
                   LiveWidgets := (LiveWidgets s)(Overlay \<mapsto> P)\<rparr>)"
proof -
  let ?s1 = "s\<lparr>Pooled := (Pooled s)(Overlay \<mapsto> pre)\<rparr>"
  have d: "distinct (pre @ P # dead)" using inv pool unfolding ui_inv_def by metis
  have inv1: "ui_inv ?s1"
    using inv d by (intro ui_inv_shrink) (auto simp: pool)
  have Pin: "P \<in> set (pool_of s Overlay)" by (simp add: pool)
  have notlive: "\<And>Other. LiveWidgets s Other \<noteq> Some P"
    using inv Pin unfolding ui_inv_def never_both_def by blast
  have notpre: "P \<notin> set pre" using d by simp
  have notother: "\<And>Other. Other \<noteq> Overlay \<Longrightarrow> P \<notin> set (pool_of s Other)"
    using inv Pin unfolding ui_inv_def by blast
  have notpooled: "\<And>Other. P \<notin> set (pool_of ?s1 Other)"
    using notpre notother by (simp add: pool_of_Pooled_upd)
  have bound: "P < NextWidget s" using inv Pin unfolding ui_inv_def by blast
  have eq: "s\<lparr>Pooled := (Pooled s)(Overlay \<mapsto> pre), LiveWidgets := (LiveWidgets s)(Overlay \<mapsto> P)\<rparr> =
      ?s1\<lparr>LiveWidgets := (LiveWidgets ?s1)(Overlay \<mapsto> P)\<rparr>" by simp
  show ?thesis
    unfolding eq
    using inv1 notlive notpooled bound
    unfolding ui_inv_def never_both_def
    by (simp split: if_splits)
qed

lemma ui_inv_fresh:
  assumes "ui_inv s"
  shows "ui_inv (snd (create_fresh e Overlay Cfg s))"
proof (cases "WidgetClass Cfg \<noteq> None \<and> UIWorld e \<and> CreateWidgetSucceeds e")
  case False
  then have "snd (create_fresh e Overlay Cfg s) = s"
    by (auto simp: create_fresh_def split: option.splits)
  then show ?thesis using assms by simp
next
  case True
  then have c: "snd (create_fresh e Overlay Cfg s) =
      s\<lparr>NextWidget := Suc (NextWidget s), LiveWidgets := (LiveWidgets s)(Overlay \<mapsto> NextWidget s)\<rparr>"
    by (auto simp: create_fresh_def split: option.splits)
  have a: "\<And>Other. NextWidget s \<notin> set (pool_of s Other)"
    using assms unfolding ui_inv_def by (metis less_irrefl)
  have b: "\<And>Other. LiveWidgets s Other \<noteq> Some (NextWidget s)"
    using assms unfolding ui_inv_def by (metis less_irrefl)
  show ?thesis
    unfolding c
    using assms a b
    unfolding ui_inv_def never_both_def
    by (simp split: if_splits) (metis less_Suc_eq)
qed

lemma ReturnToPoolOrDiscard_effect:
  "LiveWidgets (ReturnToPoolOrDiscard Overlay (Some W) bKeepInPool s) =
     (LiveWidgets s)(Overlay := None) \<and>
   pool_of (ReturnToPoolOrDiscard Overlay (Some W) bKeepInPool s) Other =
     (if Other = Overlay \<and> bKeepInPool then pool_of s Overlay @ [W] else pool_of s Other) \<and>
   NextWidget (ReturnToPoolOrDiscard Overlay (Some W) bKeepInPool s) = NextWidget s \<and>
   UICalls (ReturnToPoolOrDiscard Overlay (Some W) bKeepInPool s) =
     UICalls s @ [RemoveFromParent W, SetVisibility W Collapsed]"
  by (simp add: ReturnToPoolOrDiscard_def Let_def pool_of_def ui_call_def)

lemma ui_inv_return:
  assumes inv: "ui_inv s" and live: "LiveWidgets s Overlay = Some W"
  shows "ui_inv (ReturnToPoolOrDiscard Overlay (Some W) bKeepInPool s)"
proof -
  let ?s' = "ReturnToPoolOrDiscard Overlay (Some W) bKeepInPool s"
  have L: "LiveWidgets ?s' = (LiveWidgets s)(Overlay := None)"
    and P: "\<And>Other. pool_of ?s' Other =
      (if Other = Overlay \<and> bKeepInPool then pool_of s Overlay @ [W] else pool_of s Other)"
    and N: "NextWidget ?s' = NextWidget s"
    using ReturnToPoolOrDiscard_effect [of Overlay W bKeepInPool s] by simp_all
  have notpooled: "\<And>Other. W \<notin> set (pool_of s Other)"
    using inv live unfolding ui_inv_def never_both_def by blast
  have only: "\<And>Other. LiveWidgets s Other = Some W \<Longrightarrow> Other = Overlay"
    using inv live unfolding ui_inv_def by blast
  have bound: "W < NextWidget s" using inv live unfolding ui_inv_def by blast
  have 1: "never_both ?s'"
    using inv notpooled only unfolding ui_inv_def never_both_def L P
    by (auto split: if_splits)
  have 2: "\<forall>Other. distinct (pool_of ?s' Other)"
    using inv notpooled unfolding ui_inv_def P by simp
  have 3: "\<forall>A B. A \<noteq> B \<longrightarrow> set (pool_of ?s' A) \<inter> set (pool_of ?s' B) = {}"
    using inv notpooled unfolding ui_inv_def P by (simp split: if_splits)
  have 4: "\<forall>A B V. LiveWidgets ?s' A = Some V \<and> LiveWidgets ?s' B = Some V \<longrightarrow> A = B"
    using inv unfolding ui_inv_def L by (auto split: if_splits)
  have 5: "\<forall>A V. LiveWidgets ?s' A = Some V \<longrightarrow> V < NextWidget ?s'"
    using inv unfolding ui_inv_def L N by (auto split: if_splits)
  have 6: "\<forall>A. \<forall>V \<in> set (pool_of ?s' A). V < NextWidget ?s'"
    using inv bound unfolding ui_inv_def P N by (auto split: if_splits)
  show ?thesis unfolding ui_inv_def using 1 2 3 4 5 6 by blast
qed

lemma CreateOrReuse_live:
  assumes "live_widget e s Overlay = Some Live"
  shows "CreateOrReuse e Overlay Cfg s = (Some Live, s)"
  using assms by (simp add: CreateOrReuse_def)

lemma Pooled_pool_of:
  "pool_of s Overlay = pre @ P # dead \<Longrightarrow> Pooled s Overlay = Some (pre @ P # dead)"
  by (auto simp: pool_of_def split: option.splits)

lemma CreateOrReuse_pooled:
  assumes "live_widget e s Overlay = None" "pool_of s Overlay = pre @ P # dead"
    "WidgetValid e P" "\<forall>d \<in> set dead. \<not> WidgetValid e d"
  shows "CreateOrReuse e Overlay Cfg s =
           (Some P, s\<lparr>Pooled := (Pooled s)(Overlay \<mapsto> pre),
                       LiveWidgets := (LiveWidgets s)(Overlay \<mapsto> P)\<rparr>)"
proof -
  have "scan_pool (WidgetValid e) (length (pre @ P # dead)) (pre @ P # dead) = (Some P, pre)"
    using assms(3,4) by (rule scan_pool_found)
  then show ?thesis
    using assms(1) Pooled_pool_of [OF assms(2)] by (simp add: CreateOrReuse_def)
qed

lemma CreateOrReuse_nothing_pooled:
  assumes "live_widget e s Overlay = None" "\<forall>p \<in> set (pool_of s Overlay). \<not> WidgetValid e p"
  shows "CreateOrReuse e Overlay Cfg s =
           (case Pooled s Overlay of
              None \<Rightarrow> create_fresh e Overlay Cfg s
            | Some _ \<Rightarrow> create_fresh e Overlay Cfg (s\<lparr>Pooled := (Pooled s)(Overlay \<mapsto> [])\<rparr>))"
proof (cases "Pooled s Overlay")
  case None
  then show ?thesis using assms(1) by (simp add: CreateOrReuse_def)
next
  case (Some Pool)
  then have "\<forall>p \<in> set Pool. \<not> WidgetValid e p" using assms(2) by (simp add: pool_of_def)
  then have "scan_pool (WidgetValid e) (length Pool) Pool = (None, [])" by (rule scan_pool_none)
  then show ?thesis using assms(1) Some by (simp add: CreateOrReuse_def)
qed

lemma create_fresh_result:
  "fst (create_fresh e Overlay Cfg s) =
     (if WidgetClass Cfg \<noteq> None \<and> UIWorld e \<and> CreateWidgetSucceeds e
      then Some (NextWidget s) else None) \<and>
   LiveWidgets (snd (create_fresh e Overlay Cfg s)) =
     (if WidgetClass Cfg \<noteq> None \<and> UIWorld e \<and> CreateWidgetSucceeds e
      then (LiveWidgets s)(Overlay \<mapsto> NextWidget s) else LiveWidgets s)"
  by (auto simp: create_fresh_def split: option.splits)

lemma CreateOrReuse_fresh:
  assumes "live_widget e s Overlay = None" "\<forall>p \<in> set (pool_of s Overlay). \<not> WidgetValid e p"
  shows "fst (CreateOrReuse e Overlay Cfg s) =
           (if WidgetClass Cfg \<noteq> None \<and> UIWorld e \<and> CreateWidgetSucceeds e
            then Some (NextWidget s) else None) \<and>
         LiveWidgets (snd (CreateOrReuse e Overlay Cfg s)) =
           (if WidgetClass Cfg \<noteq> None \<and> UIWorld e \<and> CreateWidgetSucceeds e
            then (LiveWidgets s)(Overlay \<mapsto> NextWidget s) else LiveWidgets s)"
proof (cases "Pooled s Overlay")
  case None
  then show ?thesis
    using CreateOrReuse_nothing_pooled [OF assms, of Cfg] create_fresh_result [of e Overlay Cfg s]
    by simp
next
  case (Some Pool)
  then show ?thesis
    using CreateOrReuse_nothing_pooled [OF assms, of Cfg]
      create_fresh_result [of e Overlay Cfg "s\<lparr>Pooled := (Pooled s)(Overlay \<mapsto> [])\<rparr>"]
    by auto
qed

lemma ui_inv_CreateOrReuse:
  assumes inv: "ui_inv s"
  shows "ui_inv (snd (CreateOrReuse e Overlay Cfg s))"
proof (cases "live_widget e s Overlay")
  case (Some Live)
  then show ?thesis using inv by (simp add: CreateOrReuse_live)
next
  case None
  from pool_cases [of "pool_of s Overlay" "WidgetValid e"] show ?thesis
  proof
    assume "\<exists>pre P dead. pool_of s Overlay = pre @ P # dead \<and> WidgetValid e P \<and>
        (\<forall>d \<in> set dead. \<not> WidgetValid e d)"
    then obtain pre P dead where p: "pool_of s Overlay = pre @ P # dead" "WidgetValid e P"
        "\<forall>d \<in> set dead. \<not> WidgetValid e d" by blast
    show ?thesis
      using CreateOrReuse_pooled [OF None p, of Cfg] ui_inv_reuse [OF inv p(1)] by simp
  next
    assume a: "\<forall>p \<in> set (pool_of s Overlay). \<not> WidgetValid e p"
    show ?thesis
    proof (cases "Pooled s Overlay")
      case None
      then show ?thesis
        using CreateOrReuse_nothing_pooled [OF \<open>live_widget e s Overlay = None\<close> a, of Cfg]
          ui_inv_fresh [OF inv] by simp
    next
      case (Some Pool)
      have "ui_inv (s\<lparr>Pooled := (Pooled s)(Overlay \<mapsto> [])\<rparr>)"
        using inv by (intro ui_inv_shrink) simp_all
      then show ?thesis
        using CreateOrReuse_nothing_pooled [OF \<open>live_widget e s Overlay = None\<close> a, of Cfg]
          ui_inv_fresh Some by simp
    qed
  qed
qed


text \<open>
  Claim C5, as amended. \<open>CreateOrReuse\<close> returns the overlay's live widget when there is
  one and changes nothing. Otherwise, when the overlay's pool holds a widget that still exists,
  it takes the last such widget out of the pool, dropping the dead entries behind it, and adds
  it to \<open>LiveWidgets\<close>. Otherwise it creates a fresh widget and adds it to \<open>LiveWidgets\<close> when the
  overlay's config has a widget class, there is a world and the engine creates the widget; when
  not, it returns \<open>nullptr\<close> and leaves \<open>LiveWidgets\<close> as it was. \<open>ReturnToPoolOrDiscard\<close>, given
  a widget, removes the overlay's entry from \<open>LiveWidgets\<close> and adds the widget to the overlay's
  pool exactly when \<open>bKeepInPool\<close> is true. No widget is both live and pooled: the bookkeeping
  invariant implies it, \<open>CreateOrReuse\<close> keeps the invariant, and so does
  \<open>ReturnToPoolOrDiscard\<close> when it is given the overlay's live widget, as \<open>HideOverlay\<close> gives it.
\<close>

theorem widgets_live_or_pooled:
  "(live_widget e s Overlay = Some Live \<longrightarrow> CreateOrReuse e Overlay Cfg s = (Some Live, s)) \<and>
   (live_widget e s Overlay = None \<and> pool_of s Overlay = pre @ P # dead \<and>
    WidgetValid e P \<and> (\<forall>d \<in> set dead. \<not> WidgetValid e d) \<longrightarrow>
      CreateOrReuse e Overlay Cfg s =
        (Some P, s\<lparr>Pooled := (Pooled s)(Overlay \<mapsto> pre),
                    LiveWidgets := (LiveWidgets s)(Overlay \<mapsto> P)\<rparr>)) \<and>
   (live_widget e s Overlay = None \<and> (\<forall>p \<in> set (pool_of s Overlay). \<not> WidgetValid e p) \<longrightarrow>
      fst (CreateOrReuse e Overlay Cfg s) =
        (if WidgetClass Cfg \<noteq> None \<and> UIWorld e \<and> CreateWidgetSucceeds e
         then Some (NextWidget s) else None) \<and>
      LiveWidgets (snd (CreateOrReuse e Overlay Cfg s)) =
        (if WidgetClass Cfg \<noteq> None \<and> UIWorld e \<and> CreateWidgetSucceeds e
         then (LiveWidgets s)(Overlay \<mapsto> NextWidget s) else LiveWidgets s)) \<and>
   LiveWidgets (ReturnToPoolOrDiscard Overlay (Some W) bKeepInPool s) =
     (LiveWidgets s)(Overlay := None) \<and>
   pool_of (ReturnToPoolOrDiscard Overlay (Some W) bKeepInPool s) Other =
     (if Other = Overlay \<and> bKeepInPool then pool_of s Overlay @ [W] else pool_of s Other) \<and>
   (ui_inv s \<longrightarrow>
      never_both s \<and> ui_inv (snd (CreateOrReuse e Overlay Cfg s)) \<and>
      (LiveWidgets s Overlay = Some W \<longrightarrow>
         ui_inv (ReturnToPoolOrDiscard Overlay (Some W) bKeepInPool s)))"
proof -
  have 1: "live_widget e s Overlay = Some Live \<longrightarrow> CreateOrReuse e Overlay Cfg s = (Some Live, s)"
    by (simp add: CreateOrReuse_live)
  have 2: "live_widget e s Overlay = None \<and> pool_of s Overlay = pre @ P # dead \<and>
    WidgetValid e P \<and> (\<forall>d \<in> set dead. \<not> WidgetValid e d) \<longrightarrow>
      CreateOrReuse e Overlay Cfg s =
        (Some P, s\<lparr>Pooled := (Pooled s)(Overlay \<mapsto> pre),
                    LiveWidgets := (LiveWidgets s)(Overlay \<mapsto> P)\<rparr>)"
    using CreateOrReuse_pooled [of e s Overlay pre P dead Cfg] by simp
  have 3: "live_widget e s Overlay = None \<and> (\<forall>p \<in> set (pool_of s Overlay). \<not> WidgetValid e p) \<longrightarrow>
      fst (CreateOrReuse e Overlay Cfg s) =
        (if WidgetClass Cfg \<noteq> None \<and> UIWorld e \<and> CreateWidgetSucceeds e
         then Some (NextWidget s) else None) \<and>
      LiveWidgets (snd (CreateOrReuse e Overlay Cfg s)) =
        (if WidgetClass Cfg \<noteq> None \<and> UIWorld e \<and> CreateWidgetSucceeds e
         then (LiveWidgets s)(Overlay \<mapsto> NextWidget s) else LiveWidgets s)"
    using CreateOrReuse_fresh [of e s Overlay Cfg] by simp
  have 4: "LiveWidgets (ReturnToPoolOrDiscard Overlay (Some W) bKeepInPool s) =
       (LiveWidgets s)(Overlay := None) \<and>
     pool_of (ReturnToPoolOrDiscard Overlay (Some W) bKeepInPool s) Other =
       (if Other = Overlay \<and> bKeepInPool then pool_of s Overlay @ [W] else pool_of s Other)"
    using ReturnToPoolOrDiscard_effect [of Overlay W bKeepInPool s Other] by simp
  have 5: "ui_inv s \<longrightarrow>
      never_both s \<and> ui_inv (snd (CreateOrReuse e Overlay Cfg s)) \<and>
      (LiveWidgets s Overlay = Some W \<longrightarrow>
         ui_inv (ReturnToPoolOrDiscard Overlay (Some W) bKeepInPool s))"
  proof
    assume i: "ui_inv s"
    then have "never_both s" by (simp add: ui_inv_def)
    then show "never_both s \<and> ui_inv (snd (CreateOrReuse e Overlay Cfg s)) \<and>
      (LiveWidgets s Overlay = Some W \<longrightarrow>
         ui_inv (ReturnToPoolOrDiscard Overlay (Some W) bKeepInPool s))"
      using ui_inv_CreateOrReuse [OF i] ui_inv_return [OF i] by simp
  qed
  show ?thesis
    by (intro conjI) (use 1 2 3 4 5 in \<open>simp_all only:\<close>)
qed

text \<open>
  Claim C5 as stated fails. For an overlay with no live widget and nothing pooled whose
  config has no widget class, \<open>CreateOrReuse\<close> creates no widget: it returns \<open>nullptr\<close> and leaves
  the manager, and so \<open>LiveWidgets\<close>, unchanged.
\<close>

theorem CreateOrReuse_without_widget_class:
  "live_widget ui_engine1 uiS ''Wolf'' = None \<and> pool_of uiS ''Wolf'' = [] \<and>
   CreateOrReuse ui_engine1 ''Wolf'' \<lparr>WidgetClass = None, bPersistent = True\<rparr> uiS = (None, uiS)"
  by (simp add: CreateOrReuse_def live_widget_def pool_of_def create_fresh_def uiS_def)

lemma ui_inv_uiS: "ui_inv uiS"
  unfolding ui_inv_def never_both_def pool_of_def uiS_def
  by (auto split: if_splits)

theorem widgets_live_or_pooled_witness:
  "live_widget ui_engine1 uiS ''HUD'' = Some 5 \<and>
   CreateOrReuse ui_engine1 ''HUD'' \<lparr>WidgetClass = Some 1, bPersistent = True\<rparr> uiS = (Some 5, uiS) \<and>
   live_widget ui_engine1 uiS ''Pause'' = None \<and> pool_of uiS ''Pause'' = [] @ 7 # [8] \<and>
   WidgetValid ui_engine1 7 \<and> \<not> WidgetValid ui_engine1 8 \<and>
   fst (CreateOrReuse ui_engine1 ''Pause'' \<lparr>WidgetClass = Some 1, bPersistent = True\<rparr> uiS) = Some 7 \<and>
   live_widget ui_engine1 uiS ''Wolf'' = None \<and> pool_of uiS ''Wolf'' = [] \<and>
   fst (CreateOrReuse ui_engine1 ''Wolf'' \<lparr>WidgetClass = Some 1, bPersistent = True\<rparr> uiS) = Some 9 \<and>
   ui_inv uiS \<and> LiveWidgets uiS ''HUD'' = Some 5 \<and>
   pool_of (ReturnToPoolOrDiscard ''HUD'' (Some 5) True uiS) ''HUD'' = [5] \<and>
   LiveWidgets (ReturnToPoolOrDiscard ''HUD'' (Some 5) True uiS) ''HUD'' = None \<and>
   ui_inv (ReturnToPoolOrDiscard ''HUD'' (Some 5) True uiS)"
proof -
  let ?Cfg = "\<lparr>WidgetClass = Some 1, bPersistent = True\<rparr>"
  have l: "live_widget ui_engine1 uiS ''HUD'' = Some 5" "live_widget ui_engine1 uiS ''Pause'' = None"
    "live_widget ui_engine1 uiS ''Wolf'' = None"
    by (simp_all add: live_widget_def uiS_def ui_engine1_def)
  have p: "pool_of uiS ''Pause'' = [] @ 7 # [8]" "pool_of uiS ''Wolf'' = []" "pool_of uiS ''HUD'' = []"
    by (simp_all add: pool_of_def uiS_def)
  have v: "WidgetValid ui_engine1 7" "\<forall>d \<in> set [8]. \<not> WidgetValid ui_engine1 d"
    "WidgetClass ?Cfg \<noteq> None \<and> UIWorld ui_engine1 \<and> CreateWidgetSucceeds ui_engine1"
    by (simp_all add: ui_engine1_def)
  have w: "\<forall>p \<in> set (pool_of uiS ''Wolf''). \<not> WidgetValid ui_engine1 p" by (simp add: p)
  have n: "NextWidget uiS = 9" "LiveWidgets uiS ''HUD'' = Some 5" by (simp_all add: uiS_def)
  note a = widgets_live_or_pooled [of ui_engine1 uiS "''HUD''" 5 ?Cfg "[]" 7 "[8]" 5 True "''HUD''"]
  note b = widgets_live_or_pooled [of ui_engine1 uiS "''Pause''" 5 ?Cfg "[]" 7 "[8]" 5 True "''HUD''"]
  note c = widgets_live_or_pooled [of ui_engine1 uiS "''Wolf''" 5 ?Cfg "[]" 7 "[8]" 5 True "''HUD''"]
  have A: "CreateOrReuse ui_engine1 ''HUD'' ?Cfg uiS = (Some 5, uiS)"
    using a l(1) by blast
  have B: "fst (CreateOrReuse ui_engine1 ''Pause'' ?Cfg uiS) = Some 7"
    using b l(2) p(1) v(1,2) by simp
  have C: "fst (CreateOrReuse ui_engine1 ''Wolf'' ?Cfg uiS) = Some 9"
    using c l(3) w v(3) n(1) by simp
  have D: "pool_of (ReturnToPoolOrDiscard ''HUD'' (Some 5) True uiS) ''HUD'' = [5]"
    "LiveWidgets (ReturnToPoolOrDiscard ''HUD'' (Some 5) True uiS) ''HUD'' = None"
    using a p(3) by simp_all
  have E: "ui_inv (ReturnToPoolOrDiscard ''HUD'' (Some 5) True uiS)"
    using a ui_inv_uiS n(2) by blast
  show ?thesis
    using l p(1,2) v(1,2) A B C D E ui_inv_uiS n(2) by simp
qed

section \<open>Properties of the cinematic manager\<close>

lemma find_sequence_find:
  "find_sequence es Name =
     (case find (\<lambda>Entry. equals_ignore_case (CinematicName Entry) Name \<and> \<not> IsNull (Sequence Entry)) es of
        None \<Rightarrow> None
      | Some Entry \<Rightarrow> LoadSynchronous (Sequence Entry))"
  by (induction es) simp_all

lemma GetSequenceByName_entry:
  "GetSequenceByName Config Name =
     (case matching_entry Config Name of
        None \<Rightarrow> None
      | Some Entry \<Rightarrow> LoadSynchronous (Sequence Entry))"
  by (simp add: GetSequenceByName_def matching_entry_def find_sequence_find)

lemma IsNull_load: "IsNull p \<Longrightarrow> LoadSynchronous p = None"
  by (cases p) simp_all

lemma PlayCinematicByName_cases:
  "PlayCinematicByName e Settings Name p k pre post s =
     (if Name = [] then (False, s)
      else case loaded_config Settings of
        None \<Rightarrow> (False, s)
      | Some Config \<Rightarrow>
          (case matching_entry Config Name of
             None \<Rightarrow> (False, s)
           | Some Entry \<Rightarrow>
               (case LoadSynchronous (Sequence Entry) of
                  None \<Rightarrow> (False, s)
                | Some Seq \<Rightarrow> (True, PlaySequence e (Some Seq) p k pre post s))))"
  by (auto simp: PlayCinematicByName_def loaded_config_def GetSequenceByName_entry IsNull_load
      split: option.splits)

text \<open>
  Claim C6, as amended. \<open>PlayCinematicByName\<close> returns false exactly when the name is
  empty, the project-wide cinematic config is unset or does not load, the config has no entry
  whose name equals the given name with a valid sequence reference, or the sequence of the first
  such entry does not load; it then leaves the manager unchanged. In every other case it calls
  \<open>PlaySequence\<close> with the sequence loaded from that entry and returns true.
\<close>

theorem PlayCinematicByName_result:
  "(fst (PlayCinematicByName e Settings Name p k pre post s) = False \<longleftrightarrow>
      Name = [] \<or> loaded_config Settings = None \<or>
      (\<exists>Config. loaded_config Settings = Some Config \<and>
         (case matching_entry Config Name of
            None \<Rightarrow> True
          | Some Entry \<Rightarrow> LoadSynchronous (Sequence Entry) = None))) \<and>
   (fst (PlayCinematicByName e Settings Name p k pre post s) = False \<longrightarrow>
      snd (PlayCinematicByName e Settings Name p k pre post s) = s) \<and>
   (fst (PlayCinematicByName e Settings Name p k pre post s) = True \<longrightarrow>
      (\<exists>Config Entry Seq. loaded_config Settings = Some Config \<and>
         matching_entry Config Name = Some Entry \<and>
         LoadSynchronous (Sequence Entry) = Some Seq \<and>
         snd (PlayCinematicByName e Settings Name p k pre post s) =
           PlaySequence e (Some Seq) p k pre post s))"
  unfolding PlayCinematicByName_cases
  by (auto split: option.splits)

text \<open>
  Claim C6 as stated fails. The config holds an entry named \<open>Intro\<close> with a valid sequence
  reference, so none of the claim's three reasons applies, yet the sequence does not load and
  \<open>PlayCinematicByName\<close> returns false.
\<close>

theorem PlayCinematicByName_unloadable_sequence:
  "loaded_config (Some intro_unloadable) =
     Some \<lparr>Cinematics = [\<lparr>CinematicName = ''Intro'', Sequence = SoftPath None\<rparr>]\<rparr> \<and>
   matching_entry \<lparr>Cinematics = [\<lparr>CinematicName = ''Intro'', Sequence = SoftPath None\<rparr>]\<rparr> ''Intro'' =
     Some \<lparr>CinematicName = ''Intro'', Sequence = SoftPath None\<rparr> \<and>
   \<not> IsNull (SoftPath None :: object soft_ptr) \<and>
   fst (PlayCinematicByName cinematic_engine0 (Some intro_unloadable) ''Intro'' False True 0 0
          cinematic_idle) = False"
  by (simp add: PlayCinematicByName_def loaded_config_def intro_unloadable_def
      GetSequenceByName_def equals_ignore_case_def matching_entry_def)

theorem PlayCinematicByName_result_witness:
  "fst (PlayCinematicByName cinematic_engine0 (Some intro_settings) ''intro'' False True 0 0
          cinematic_idle) = True \<and>
   snd (PlayCinematicByName cinematic_engine0 (Some intro_settings) ''intro'' False True 0 0
          cinematic_idle) =
     PlaySequence cinematic_engine0 (Some 1) False True 0 0 cinematic_idle \<and>
   fst (PlayCinematicByName cinematic_engine0 (Some intro_settings) ''Outro'' False True 0 0
          cinematic_idle) = False \<and>
   snd (PlayCinematicByName cinematic_engine0 (Some intro_settings) ''Outro'' False True 0 0
          cinematic_idle) = cinematic_idle"
proof -
  let ?Config = "\<lparr>Cinematics = [\<lparr>CinematicName = ''Outro'', Sequence = SoftNull\<rparr>,
                                 \<lparr>CinematicName = ''Intro'', Sequence = SoftPath (Some 1)\<rparr>]\<rparr>"
  have c: "loaded_config (Some intro_settings) = Some ?Config"
    by (simp add: loaded_config_def intro_settings_def)
  have i: "matching_entry ?Config ''intro'' =
      Some \<lparr>CinematicName = ''Intro'', Sequence = SoftPath (Some 1)\<rparr>"
    by code_simp
  have o: "matching_entry ?Config ''Outro'' = None"
    by code_simp
  note a = PlayCinematicByName_result [of cinematic_engine0 "Some intro_settings" "''intro''"
      False True 0 0 cinematic_idle]
  note b = PlayCinematicByName_result [of cinematic_engine0 "Some intro_settings" "''Outro''"
      False True 0 0 cinematic_idle]
  have F: "fst (PlayCinematicByName cinematic_engine0 (Some intro_settings) ''Outro'' False True 0 0
          cinematic_idle) = False"
    using b c o by simp
  have T: "fst (PlayCinematicByName cinematic_engine0 (Some intro_settings) ''intro'' False True 0 0
          cinematic_idle) = True"
    using a c i by simp
  show ?thesis
    using a b F T c i by auto
qed


lemma ApplyPause_fields [simp]:
  "bIsPlaying (ApplyPause e b s) = bIsPlaying s"
  "bAllowSkip (ApplyPause e b s) = bAllowSkip s"
  "PreDelayHandle (ApplyPause e b s) = PreDelayHandle s"
  "PostDelayHandle (ApplyPause e b s) = PostDelayHandle s"
  "Started (ApplyPause e b s) = Started s"
  "ActivePlayer (ApplyPause e b s) = ActivePlayer s"
  "bPendingSkippable (ApplyPause e b s) = bPendingSkippable s"
  by (simp_all add: ApplyPause_def cinematic_call_def)

lemma cin_inv_StartSequence:
  assumes "\<not> bAllowSkip s" "PreDelayHandle s = None" "PostDelayHandle s = None" "Started s = []"
    "bIsPlaying s"
  shows "cin_inv (StartSequence e s)"
  using assms
  by (auto simp: StartSequence_def cin_inv_def cinematic_call_def Let_def split: option.splits)

lemma cin_inv_HandleSequenceFinished:
  assumes "CinWorld e" "PreDelayHandle s = None" "PostDelayHandle s = None" "Started s = []"
    "bIsPlaying s"
  shows "cin_inv (HandleSequenceFinished e s)"
  using assms
  by (auto simp: HandleSequenceFinished_def finish_cleanup_def cin_inv_def Let_def)

lemma cin_inv_finish_cleanup:
  assumes "\<not> bAllowSkip s" "PreDelayHandle s = None" "PostDelayHandle s = None" "Started s = []"
  shows "cin_inv (finish_cleanup e s)"
  using assms by (simp add: finish_cleanup_def cin_inv_def)

lemma cin_inv_PlaySequence:
  assumes "cin_inv s"
  shows "cin_inv (PlaySequence e Seq p k pre post s)"
proof (cases "Seq = None \<or> \<not> CinWorld e \<or> bIsPlaying s")
  case True
  then show ?thesis using assms by (auto simp: PlaySequence_def)
next
  case False
  then have idle: "\<not> bAllowSkip s" "PreDelayHandle s = None" "PostDelayHandle s = None"
    "Started s = []"
    using assms by (auto simp: cin_inv_def split: option.splits)
  let ?s1 = "s\<lparr>PendingSequence := Seq, bPendingPause := p, bPendingSkippable := k,
                PendingPostDelay := max 0 post, bIsPlaying := True, bAllowSkip := False\<rparr>"
  show ?thesis
  proof (cases "pre > 0")
    case True
    then have "PlaySequence e Seq p k pre post s = ?s1\<lparr>PreDelayHandle := Some pre\<rparr>"
      using False by (auto simp: PlaySequence_def)
    then show ?thesis using idle by (simp add: cin_inv_def)
  next
    case npre: False
    then have "PlaySequence e Seq p k pre post s = StartSequence e ?s1"
      using False by (auto simp: PlaySequence_def)
    then show ?thesis using idle cin_inv_StartSequence [of ?s1 e] by simp
  qed
qed

lemma cin_inv_Skip:
  assumes "cin_inv s" "CinWorld e"
  shows "cin_inv (SkipCurrentCinematic e s)"
proof (cases "\<not> bIsPlaying s \<or> \<not> bAllowSkip s \<or> ActivePlayer s = None")
  case True
  then show ?thesis using assms by (simp add: SkipCurrentCinematic_def)
next
  case False
  then obtain Player where P: "ActivePlayer s = Some Player" by auto
  from False assms(1) P have run: "PreDelayHandle s = None" "PostDelayHandle s = None"
    "Started s = [Player]"
    by (auto simp: cin_inv_def)
  let ?s1 = "(cinematic_call (StopPlayer Player) s)\<lparr>Started := removeAll Player (Started s)\<rparr>"
  have "SkipCurrentCinematic e s = HandleSequenceFinished e ?s1"
    using False P by (simp add: SkipCurrentCinematic_def)
  moreover have "cin_inv (HandleSequenceFinished e ?s1)"
    using False run assms(2)
    by (intro cin_inv_HandleSequenceFinished) (simp_all add: cinematic_call_def)
  ultimately show ?thesis by simp
qed

lemma cin_inv_step:
  assumes "cin_inv s" "runs_finish_handler ev \<longrightarrow> CinWorld e"
  shows "cin_inv (cinematic_step e ev s)"
proof (cases ev)
  case (CallPlaySequence Seq p k pre post)
  then show ?thesis using assms(1) by (simp add: cin_inv_PlaySequence)
next
  case CallSkipCurrentCinematic
  then show ?thesis using assms by (simp add: cin_inv_Skip)
next
  case PreDelayElapsed
  show ?thesis
  proof (cases "PreDelayHandle s")
    case None
    then show ?thesis using assms(1) PreDelayElapsed by simp
  next
    case (Some d)
    then have "\<not> bAllowSkip s" "PostDelayHandle s = None" "Started s = []" "bIsPlaying s"
      using assms(1) by (auto simp: cin_inv_def split: option.splits)
    then show ?thesis
      using Some PreDelayElapsed cin_inv_StartSequence [of "s\<lparr>PreDelayHandle := None\<rparr>" e]
      by simp
  qed
next
  case (PlayerFinished Player)
  show ?thesis
  proof (cases "Player \<in> set (Started s)")
    case False
    then show ?thesis using assms(1) PlayerFinished by simp
  next
    case True
    then have run: "bIsPlaying s" "PreDelayHandle s = None" "PostDelayHandle s = None"
      "Started s = [Player]"
      using assms(1) by (auto simp: cin_inv_def split: option.splits)
    have w: "CinWorld e" using assms(2) PlayerFinished by simp
    show ?thesis
      using True PlayerFinished run w
        cin_inv_HandleSequenceFinished [of e "s\<lparr>Started := removeAll Player (Started s)\<rparr>"]
      by simp
  qed
next
  case PostDelayElapsed
  show ?thesis
  proof (cases "PostDelayHandle s")
    case None
    then show ?thesis using assms(1) PostDelayElapsed by simp
  next
    case (Some d)
    then have "\<not> bAllowSkip s" "PreDelayHandle s = None" "Started s = []"
      using assms(1) by (auto simp: cin_inv_def split: option.splits)
    then show ?thesis
      using Some PostDelayElapsed cin_inv_finish_cleanup [of "s\<lparr>PostDelayHandle := None\<rparr>" e]
      by simp
  qed
qed

lemma cin_inv_run:
  assumes "cin_inv s" "\<forall>(e, ev) \<in> set evs. runs_finish_handler ev \<longrightarrow> CinWorld e"
  shows "cin_inv (cinematic_run evs s)"
  using assms
proof (induction evs arbitrary: s)
  case Nil
  then show ?case by simp
next
  case (Cons a evs)
  obtain e ev where a: "a = (e, ev)" by (cases a)
  have "cin_inv (cinematic_step e ev s)"
    using Cons.prems a by (intro cin_inv_step) simp_all
  then show ?case using Cons.IH Cons.prems a by simp
qed

lemma cin_inv_skip_needs_playing: "cin_inv s \<Longrightarrow> bAllowSkip s \<Longrightarrow> bIsPlaying s"
  by (auto simp: cin_inv_def)

lemma cin_inv_idle: "cin_inv cinematic_idle"
  by (simp add: cin_inv_def cinematic_idle_def)

text \<open>
  Claim C10, as amended. At most one cinematic plays at a time: \<open>PlaySequence\<close> called while
  \<open>bIsPlaying\<close> is true returns the manager unchanged. In every state reached from the manager as
  constructed, \<open>bAllowSkip\<close> implies \<open>bIsPlaying\<close>, as long as there is a world whenever
  \<open>HandleSequenceFinished\<close> runs (for a finished player or in \<open>SkipCurrentCinematic\<close>).
  \<open>SkipCurrentCinematic\<close> changes nothing unless \<open>bIsPlaying\<close> and \<open>bAllowSkip\<close> are true and there is
  an active player.
\<close>

theorem one_cinematic_at_a_time:
  "(bIsPlaying s \<longrightarrow> PlaySequence e Seq p k pre post s = s) \<and>
   ((\<forall>(e', ev) \<in> set evs. runs_finish_handler ev \<longrightarrow> CinWorld e') \<longrightarrow>
      (bAllowSkip (cinematic_run evs cinematic_idle) \<longrightarrow>
         bIsPlaying (cinematic_run evs cinematic_idle))) \<and>
   (\<not> (bIsPlaying s \<and> bAllowSkip s \<and> ActivePlayer s \<noteq> None) \<longrightarrow>
      SkipCurrentCinematic e s = s)"
proof (intro conjI impI)
  assume "bIsPlaying s"
  then show "PlaySequence e Seq p k pre post s = s" by (simp add: PlaySequence_def)
next
  assume "\<forall>(e', ev) \<in> set evs. runs_finish_handler ev \<longrightarrow> CinWorld e'"
    and "bAllowSkip (cinematic_run evs cinematic_idle)"
  then show "bIsPlaying (cinematic_run evs cinematic_idle)"
    using cin_inv_run [OF cin_inv_idle, of evs] cin_inv_skip_needs_playing by blast
next
  assume "\<not> (bIsPlaying s \<and> bAllowSkip s \<and> ActivePlayer s \<noteq> None)"
  then show "SkipCurrentCinematic e s = s" by (auto simp: SkipCurrentCinematic_def)
qed

lemma playing_example:
  "cinematic_run [(cinematic_engine0, CallPlaySequence (Some 1) False True 0 0)] cinematic_idle =
     cinematic_idle\<lparr>PendingSequence := Some 1, bPendingSkippable := True, bIsPlaying := True,
       bAllowSkip := True, ActivePlayer := Some 2, ActiveActor := Some 3, Started := [2],
       CinematicCalls := [SetPause False, Play 2]\<rparr>"
  by (simp add: PlaySequence_def StartSequence_def ApplyPause_def cinematic_call_def
      cinematic_engine0_def cinematic_idle_def)

text \<open>
  Claim C10 as stated fails. A skippable sequence is started and its player finishes while
  there is no world: \<open>HandleSequenceFinished\<close> clears \<open>bIsPlaying\<close> and returns before it clears
  \<open>bAllowSkip\<close>, so afterwards \<open>bAllowSkip\<close> is true and \<open>bIsPlaying\<close> is false.
\<close>

theorem finish_without_world_leaves_skip_allowed:
  "bAllowSkip (cinematic_run
       [(cinematic_engine0, CallPlaySequence (Some 1) False True 0 0),
        (cinematic_engine_no_world, PlayerFinished 2)] cinematic_idle) \<and>
   \<not> bIsPlaying (cinematic_run
       [(cinematic_engine0, CallPlaySequence (Some 1) False True 0 0),
        (cinematic_engine_no_world, PlayerFinished 2)] cinematic_idle)"
  by (simp add: PlaySequence_def StartSequence_def ApplyPause_def cinematic_call_def
      HandleSequenceFinished_def cinematic_engine0_def cinematic_engine_no_world_def
      cinematic_idle_def)

theorem one_cinematic_at_a_time_witness:
  "(let s = cinematic_run [(cinematic_engine0, CallPlaySequence (Some 1) False True 0 0)] cinematic_idle
    in bIsPlaying s \<and> bAllowSkip s \<and>
       PlaySequence cinematic_engine0 (Some 9) True True 0 0 s = s \<and>
       \<not> (bIsPlaying cinematic_idle \<and> bAllowSkip cinematic_idle \<and> ActivePlayer cinematic_idle \<noteq> None) \<and>
       SkipCurrentCinematic cinematic_engine0 cinematic_idle = cinematic_idle)"
proof -
  let ?evs = "[(cinematic_engine0, CallPlaySequence (Some 1) False True 0 0)]"
  let ?s = "cinematic_run ?evs cinematic_idle"
  have w: "\<forall>(e', ev) \<in> set ?evs. runs_finish_handler ev \<longrightarrow> CinWorld e'" by simp
  have a: "bAllowSkip ?s" unfolding playing_example by simp
  have i: "\<not> (bIsPlaying cinematic_idle \<and> bAllowSkip cinematic_idle \<and> ActivePlayer cinematic_idle \<noteq> None)"
    by (simp add: cinematic_idle_def)
  have p: "bIsPlaying ?s"
    using one_cinematic_at_a_time [of ?s cinematic_engine0 "Some 9" True True 0 0 ?evs] w a
    by blast
  have q: "PlaySequence cinematic_engine0 (Some 9) True True 0 0 ?s = ?s"
    using one_cinematic_at_a_time [of ?s cinematic_engine0 "Some 9" True True 0 0 ?evs] p
    by blast
  have r: "SkipCurrentCinematic cinematic_engine0 cinematic_idle = cinematic_idle"
    using one_cinematic_at_a_time [of cinematic_idle cinematic_engine0 "Some 9" True True 0 0 ?evs] i
    by blast
  show ?thesis unfolding Let_def using a p q r i by blast
qed

end
